theory Spec2Isabelle
  imports Main "HOL-Library.Sublist" "HOL-Library.List_Lexorder" "HOL-Library.AList"
begin


section \<open>Characters and the string primitives of the source language\<close>

text \<open>
  Text is a list of characters; a character is a code point below 256.  The driver reads
  terminal output of the appliance, which is plain ASCII.  \<open>isspace\<close> is the whitespace test
  behind \<open>str.split()\<close>, \<open>str.strip()\<close> and the regular-expression class \<open>\s\<close>;
  \<open>isdecimal\<close> is the class \<open>\d\<close>.
\<close>

definition ESC :: char where
  "ESC = CHR 0x1B"

definition NL :: char where
  "NL = CHR 0x0A"

definition isspace :: "char \<Rightarrow> bool" where
  "isspace c \<longleftrightarrow> c \<in> set [CHR 0x09, CHR 0x0A, CHR 0x0B, CHR 0x0C, CHR 0x0D,
     CHR 0x1C, CHR 0x1D, CHR 0x1E, CHR 0x1F, CHR 0x20, CHR 0x85, CHR 0xA0]"

definition isdecimal :: "char \<Rightarrow> bool" where
  "isdecimal c \<longleftrightarrow> c \<in> set ''0123456789''"

section \<open>Regular expressions with backtracking semantics\<close>

text \<open>
  The patterns of the driver are written in the \<open>re\<close> dialect.  A pattern is a value of
  \<open>regex\<close>; matching lists every way the pattern can match at one position, in the order
  in which a backtracking matcher tries them, so the head of the list is the match that
  \<open>re\<close> reports.  Every repetition in the driver's patterns is a greedy repetition of a
  single-character item (\<open>\d+\<close>, \<open>.+\<close>, \<open>[\s]{3,}\<close>), which is what \<open>Rep\<close> provides.
\<close>

datatype atom = Chr char | Digit | Space | Dot | Range char char | OneOf "atom list"

fun atom_ok :: "bool \<Rightarrow> atom \<Rightarrow> char \<Rightarrow> bool" where
  "atom_ok da (Chr a) c = (a = c)"
| "atom_ok da Digit c = isdecimal c"
| "atom_ok da Space c = isspace c"
| "atom_ok da Dot c = (if c = NL then da else True)"
| "atom_ok da (Range lo hi) c = ((of_char lo :: nat) \<le> of_char c \<and> (of_char c :: nat) \<le> of_char hi)"
| "atom_ok da (OneOf as) c = list_ex (\<lambda>a. atom_ok da a c) as"

datatype regex =
    Eps
  | Atom atom
  | Str string
  | Seq regex regex
  | Alt regex regex
  | Rep nat atom
  | Bol
  | Eol
  | Grp nat regex
  | Ahead regex
  | NotAhead regex
  | Behind nat regex

fun cat :: "regex list \<Rightarrow> regex" where
  "cat [] = Eps"
| "cat [r] = r"
| "cat (r # rs) = Seq r (cat rs)"

fun alts :: "regex list \<Rightarrow> regex" where
  "alts [] = NotAhead Eps"
| "alts [r] = r"
| "alts (r # rs) = Alt r (alts rs)"

record re_flags =
  multiline :: bool
  dotall :: bool

definition no_flags :: re_flags where
  "no_flags = \<lparr>multiline = False, dotall = False\<rparr>"

definition flags_M :: re_flags where
  "flags_M = \<lparr>multiline = True, dotall = False\<rparr>"

definition flags_SM :: re_flags where
  "flags_SM = \<lparr>multiline = True, dotall = True\<rparr>"

text \<open>
  A matcher state: the text before the position (most recent character first), the text
  from the position on, and the groups captured so far (most recent first).
\<close>

type_synonym mstate = "string \<times> string \<times> (nat \<times> string) list"

fun rep :: "bool \<Rightarrow> atom \<Rightarrow> nat \<Rightarrow> string \<Rightarrow> string \<Rightarrow> (string \<times> string) list" where
  "rep da a n pre [] = (if n = 0 then [(pre, [])] else [])"
| "rep da a n pre (c # cs) =
     (if atom_ok da a c then rep da a (n - 1) (c # pre) cs else []) @
     (if n = 0 then [(pre, c # cs)] else [])"

definition at_bol :: "bool \<Rightarrow> string \<Rightarrow> bool" where
  "at_bol ml pre = (case pre of [] \<Rightarrow> True | c # _ \<Rightarrow> ml \<and> c = NL)"

definition at_eol :: "bool \<Rightarrow> string \<Rightarrow> bool" where
  "at_eol ml rest = (case rest of [] \<Rightarrow> True | c # cs \<Rightarrow> c = NL \<and> (ml \<or> cs = []))"

fun step :: "re_flags \<Rightarrow> regex \<Rightarrow> mstate \<Rightarrow> mstate list" where
  "step f Eps st = [st]"
| "step f (Atom a) (pre, rest, g) =
     (case rest of [] \<Rightarrow> []
      | c # cs \<Rightarrow> if atom_ok (dotall f) a c then [(c # pre, cs, g)] else [])"
| "step f (Str w) (pre, rest, g) =
     (if take (length w) rest = w then [(rev w @ pre, drop (length w) rest, g)] else [])"
| "step f (Seq r1 r2) st = concat (map (step f r2) (step f r1 st))"
| "step f (Alt r1 r2) st = step f r1 st @ step f r2 st"
| "step f (Rep n a) (pre, rest, g) = map (\<lambda>(p, r). (p, r, g)) (rep (dotall f) a n pre rest)"
| "step f Bol (pre, rest, g) = (if at_bol (multiline f) pre then [(pre, rest, g)] else [])"
| "step f Eol (pre, rest, g) = (if at_eol (multiline f) rest then [(pre, rest, g)] else [])"
| "step f (Grp i r) (pre, rest, g) =
     map (\<lambda>(p', r', g'). (p', r', (i, take (length rest - length r') rest) # g'))
       (step f r (pre, rest, g))"
| "step f (Ahead r) st = (if step f r st = [] then [] else [st])"
| "step f (NotAhead r) st = (if step f r st = [] then [st] else [])"
| "step f (Behind n r) (pre, rest, g) =
     (if n \<le> length pre \<and>
         list_ex (\<lambda>(p', r', g'). length r' = length rest)
           (step f r (drop n pre, rev (take n pre) @ rest, g))
      then [(pre, rest, g)] else [])"

text \<open>
  A match object: the matched text, the captured groups and the text that follows.
\<close>

record rmatch =
  whole :: string
  groups :: "(nat \<times> string) list"
  after :: string

definition mk_match :: "string \<Rightarrow> mstate \<Rightarrow> rmatch" where
  "mk_match s st = (case st of (p', r', g) \<Rightarrow>
     \<lparr>whole = take (length s - length r') s, groups = g, after = r'\<rparr>)"

definition group :: "rmatch \<Rightarrow> nat \<Rightarrow> string option" where
  "group m i = map_of (groups m) i"

text \<open>\<open>re.search\<close>: the first match at the leftmost position that has one.\<close>

fun search_from :: "re_flags \<Rightarrow> regex \<Rightarrow> string \<Rightarrow> string \<Rightarrow> rmatch option" where
  "search_from f r pre [] =
     (case step f r (pre, [], []) of [] \<Rightarrow> None | st # _ \<Rightarrow> Some (mk_match [] st))"
| "search_from f r pre (c # cs) =
     (case step f r (pre, c # cs, []) of
        [] \<Rightarrow> search_from f r (c # pre) cs
      | st # _ \<Rightarrow> Some (mk_match (c # cs) st))"

definition re_search :: "regex \<Rightarrow> string \<Rightarrow> re_flags \<Rightarrow> rmatch option" where
  "re_search r s f = search_from f r [] s"

text \<open>
  \<open>re.findall\<close> and \<open>re.sub\<close> with the empty replacement scan from the left and go on
  behind each match.  After an empty match the scan moves one character on; none of the
  driver's patterns can match the empty text.
\<close>

fun findall_from :: "re_flags \<Rightarrow> regex \<Rightarrow> string \<Rightarrow> string \<Rightarrow> rmatch list" where
  "findall_from f r pre [] =
     (case step f r (pre, [], []) of [] \<Rightarrow> [] | st # _ \<Rightarrow> [mk_match [] st])"
| "findall_from f r pre (c # cs) =
     (case step f r (pre, c # cs, []) of
        [] \<Rightarrow> findall_from f r (c # pre) cs
      | (p', r', g) # _ \<Rightarrow>
          mk_match (c # cs) (p', r', g) #
          (if length r' < length (c # cs) then findall_from f r p' r'
           else findall_from f r (c # pre) cs))"

definition re_findall :: "regex \<Rightarrow> string \<Rightarrow> re_flags \<Rightarrow> rmatch list" where
  "re_findall r s f = findall_from f r [] s"

fun sub_from :: "re_flags \<Rightarrow> regex \<Rightarrow> string \<Rightarrow> string \<Rightarrow> string" where
  "sub_from f r pre [] = []"
| "sub_from f r pre (c # cs) =
     (case step f r (pre, c # cs, []) of
        [] \<Rightarrow> c # sub_from f r (c # pre) cs
      | (p', r', g) # _ \<Rightarrow>
          (if length r' < length (c # cs) then sub_from f r p' r'
           else c # sub_from f r (c # pre) cs))"

definition re_sub_empty :: "regex \<Rightarrow> string \<Rightarrow> string" where
  "re_sub_empty r s = sub_from no_flags r [] s"

section \<open>The escape filter\<close>

text \<open>
  \<open>_strip_ansi_escape_codes\<close>: every code is \<open>chr(27)\<close> followed by a fixed pattern; the
  filter substitutes, for each code of \<open>code_set\<close> in turn, the pattern
  \<open>(-|\\|\/|\s|\|)\<close> followed by the code with the empty text.
\<close>

definition esc :: "regex list \<Rightarrow> regex" where
  "esc rs = Seq (Atom (Chr ESC)) (cat rs)"

definition code_position_cursor :: regex where
  "code_position_cursor = esc [Str ''['', Rep 1 Digit, Str '';'', Rep 1 Digit, Str ''H'']"

definition code_show_cursor :: regex where
  "code_show_cursor = esc [Str ''[?25h'']"

definition code_next_line :: regex where
  "code_next_line = esc [Str ''E'']"

definition code_erase_line_end :: regex where
  "code_erase_line_end = esc [Str ''[K'']"

definition code_erase_line :: regex where
  "code_erase_line = esc [Str ''[2K'']"

definition code_erase_start_line :: regex where
  "code_erase_start_line = esc [Str ''[K'']"

definition code_enable_scroll :: regex where
  "code_enable_scroll = esc [Str ''['', Rep 1 Digit, Str '';'', Rep 1 Digit, Str ''r'']"

definition code_insert_line :: regex where
  "code_insert_line = esc [Str ''['', Grp 2 (Rep 1 Digit), Str ''L'']"

definition code_carriage_return :: regex where
  "code_carriage_return = esc [Str ''[1M'']"

definition code_disable_line_wrapping :: regex where
  "code_disable_line_wrapping = esc [Str ''[?7l'']"

definition code_reset_mode_screen_options :: regex where
  "code_reset_mode_screen_options = esc [Str ''[?'', Rep 1 Digit, Str ''l'']"

definition code_reset_graphics_mode :: regex where
  "code_reset_graphics_mode = esc [Str ''[00m'']"

definition code_erase_display :: regex where
  "code_erase_display = esc [Str ''[2J'']"

definition code_erase_display_0 :: regex where
  "code_erase_display_0 = esc [Str ''[J'']"

definition code_graphics_mode :: regex where
  "code_graphics_mode = esc [Str ''['', Atom Digit, Str ''m'']"

definition code_graphics_mode1 :: regex where
  "code_graphics_mode1 =
     esc [Str ''['', Atom Digit, Atom Digit, Str '';'', Atom Digit, Atom Digit, Str ''m'']"

definition code_graphics_mode2 :: regex where
  "code_graphics_mode2 =
     esc [Str ''['', Atom Digit, Atom Digit, Str '';'', Atom Digit, Atom Digit, Str '';'',
          Atom Digit, Atom Digit, Str ''m'']"

definition code_graphics_mode3 :: regex where
  "code_graphics_mode3 = esc [Str ''['', Grp 2 (Alt (Str ''3'') (Str ''4'')), Atom Digit, Str ''m'']"

definition code_graphics_mode4 :: regex where
  "code_graphics_mode4 =
     esc [Str ''['', Grp 2 (Alt (Str ''9'') (Str ''10'')), Atom (Range CHR ''0'' CHR ''7''), Str ''m'']"

definition code_get_cursor_position :: regex where
  "code_get_cursor_position = esc [Str ''[6n'']"

definition code_cursor_position :: regex where
  "code_cursor_position = esc [Str ''[m'']"

definition code_attrs_off :: regex where
  "code_attrs_off = esc [Str ''[0m'']"

definition code_reverse :: regex where
  "code_reverse = esc [Str ''[7m'']"

definition code_cursor_left :: regex where
  "code_cursor_left = esc [Str ''['', Rep 1 Digit, Str ''D'']"

definition code_cursor_forward :: regex where
  "code_cursor_forward = esc [Str ''['', Rep 0 Digit, Str ''C'']"

definition code_cursor_up :: regex where
  "code_cursor_up = esc [Str ''['', Rep 0 Digit, Str ''A'']"

definition code_cursor_down :: regex where
  "code_cursor_down = esc [Str ''['', Rep 0 Digit, Str ''B'']"

definition code_wrap_around :: regex where
  "code_wrap_around = esc [Str ''[?7h'']"

definition code_bracketed_paste_mode :: regex where
  "code_bracketed_paste_mode = esc [Str ''[?2004h'']"

definition code_set :: "regex list" where
  "code_set = [
     code_position_cursor,
     code_show_cursor,
     code_erase_line,
     code_enable_scroll,
     code_erase_start_line,
     code_carriage_return,
     code_disable_line_wrapping,
     code_erase_line_end,
     code_reset_mode_screen_options,
     code_reset_graphics_mode,
     code_erase_display,
     code_graphics_mode,
     code_graphics_mode1,
     code_graphics_mode2,
     code_graphics_mode3,
     code_graphics_mode4,
     code_get_cursor_position,
     code_cursor_position,
     code_erase_display,
     code_erase_display_0,
     code_attrs_off,
     code_reverse,
     code_cursor_left,
     code_cursor_up,
     code_cursor_down,
     code_cursor_forward,
     code_wrap_around,
     code_bracketed_paste_mode]"

text \<open>The group \<open>(-|\\|\/|\s|\|)\<close> that the filter puts in front of every code.\<close>

definition lead_group :: regex where
  "lead_group = Grp 1 (alts [Atom (Chr CHR ''-''), Atom (Chr CHR 0x5C), Atom (Chr CHR ''/''),
     Atom Space, Atom (Chr CHR ''|'')])"

definition lead_char :: "char \<Rightarrow> bool" where
  "lead_char c \<longleftrightarrow> c = CHR ''-'' \<or> c = CHR 0x5C \<or> c = CHR ''/'' \<or> isspace c \<or> c = CHR ''|''"

definition strip_ansi_escape_codes :: "string \<Rightarrow> string" where
  "strip_ansi_escape_codes string_buffer =
     foldl (\<lambda>output ansi_esc_code. re_sub_empty (Seq lead_group ansi_esc_code) output)
       string_buffer code_set"


text \<open>
  Notions used to state what the filter does: \<open>filter_with\<close> is the filter for any list
  of codes, and \<open>occurs c s\<close> says that the pattern the filter builds from the code \<open>c\<close>
  matches somewhere in \<open>s\<close>.
\<close>

definition filter_with :: "regex list \<Rightarrow> string \<Rightarrow> string" where
  "filter_with cs s =
     foldl (\<lambda>output ansi_esc_code. re_sub_empty (Seq lead_group ansi_esc_code) output) s cs"

definition occurs :: "regex \<Rightarrow> string \<Rightarrow> bool" where
  "occurs c s \<longleftrightarrow> re_search (Seq lead_group c) s no_flags \<noteq> None"

subsection \<open>The catalogue as sequences of characters\<close>

text \<open>
  The second description of the filter, in the words of its contract: the catalogue
  lists, for each code, the characters that follow \<open>ESC\<close>, item by item.  An item is a
  fixed text, a run of at least \<open>n\<close> decimal digits closed by a fixed text, one decimal
  digit, one digit from 0 to 7, or one of several fixed texts.  \<open>seq_len\<close> reads the items
  from the left, without any search, and gives the number of characters they take at the
  start of a text, if they are there.
\<close>

datatype item = Lit string | Run nat string | One | Oct | Choice "string list"

definition catalog :: "item list list" where
  "catalog = [
     [Lit ''['', Run 1 '';'', Run 1 ''H''],
     [Lit ''[?25h''],
     [Lit ''[2K''],
     [Lit ''['', Run 1 '';'', Run 1 ''r''],
     [Lit ''[K''],
     [Lit ''[1M''],
     [Lit ''[?7l''],
     [Lit ''[K''],
     [Lit ''[?'', Run 1 ''l''],
     [Lit ''[00m''],
     [Lit ''[2J''],
     [Lit ''['', One, Lit ''m''],
     [Lit ''['', One, One, Lit '';'', One, One, Lit ''m''],
     [Lit ''['', One, One, Lit '';'', One, One, Lit '';'', One, One, Lit ''m''],
     [Lit ''['', Choice [''3'', ''4''], One, Lit ''m''],
     [Lit ''['', Choice [''9'', ''10''], Oct, Lit ''m''],
     [Lit ''[6n''],
     [Lit ''[m''],
     [Lit ''[2J''],
     [Lit ''[J''],
     [Lit ''[0m''],
     [Lit ''[7m''],
     [Lit ''['', Run 1 ''D''],
     [Lit ''['', Run 0 ''A''],
     [Lit ''['', Run 0 ''B''],
     [Lit ''['', Run 0 ''C''],
     [Lit ''[?7h''],
     [Lit ''[?2004h'']]"

fun seq_len :: "item list \<Rightarrow> string \<Rightarrow> nat option" where
  "seq_len [] t = Some 0"
| "seq_len (Lit w # items) t =
     (if take (length w) t = w
      then map_option (\<lambda>n. length w + n) (seq_len items (drop (length w) t))
      else None)"
| "seq_len (Run n w # items) t =
     (let k = length (takeWhile isdecimal t) in
      if n \<le> k \<and> take (length w) (drop k t) = w
      then map_option (\<lambda>m. k + length w + m) (seq_len items (drop (k + length w) t))
      else None)"
| "seq_len (One # items) t =
     (case t of
        [] \<Rightarrow> None
      | c # cs \<Rightarrow> if isdecimal c then map_option Suc (seq_len items cs) else None)"
| "seq_len (Oct # items) t =
     (case t of
        [] \<Rightarrow> None
      | c # cs \<Rightarrow>
          if (of_char CHR ''0'' :: nat) \<le> of_char c \<and> (of_char c :: nat) \<le> of_char CHR ''7''
          then map_option Suc (seq_len items cs) else None)"
| "seq_len (Choice ws # items) t =
     (case find (\<lambda>w. take (length w) t = w) ws of
        None \<Rightarrow> None
      | Some w \<Rightarrow> map_option (\<lambda>n. length w + n) (seq_len items (drop (length w) t)))"

text \<open>
  Deleting the occurrences of one code: from the left, where a leading character is
  followed by \<open>ESC\<close> and the sequence of the code, the leading character, the \<open>ESC\<close> and the
  sequence are dropped and the scan goes on behind them; every other character is kept.
  \<open>delete_catalogued\<close> does this for the codes of the catalogue in turn.
\<close>

fun delete_sequences :: "item list \<Rightarrow> string \<Rightarrow> string" where
  "delete_sequences sh [] = []"
| "delete_sequences sh [p] = [p]"
| "delete_sequences sh (p # e # u) =
     (if lead_char p \<and> e = ESC then
        (case seq_len sh u of
           None \<Rightarrow> p # delete_sequences sh (e # u)
         | Some n \<Rightarrow> delete_sequences sh (drop n u))
      else p # delete_sequences sh (e # u))"

definition delete_catalogued :: "string \<Rightarrow> string" where
  "delete_catalogued s = foldl (\<lambda>output sh. delete_sequences sh output) s catalog"

text \<open>
  A text is \<open>lead_guarded\<close> when each \<open>ESC\<close> in it directly follows a leading character.
\<close>

fun guarded_from :: "bool \<Rightarrow> string \<Rightarrow> bool" where
  "guarded_from prev [] = True"
| "guarded_from prev (c # cs) =
     (if c = ESC then (if prev then guarded_from False cs else False)
      else guarded_from (lead_char c) cs)"

definition lead_guarded :: "string \<Rightarrow> bool" where
  "lead_guarded s = guarded_from False s"

text \<open>
  The patterns that stand for the items, and the conditions under which reading an
  item from the left agrees with matching its patterns: the text that closes a run
  does not begin with a digit, and the fixed texts of a choice begin differently.
\<close>

fun item_regexes :: "item \<Rightarrow> regex list" where
  "item_regexes (Lit w) = [Str w]"
| "item_regexes (Run n w) = [Rep n Digit, Str w]"
| "item_regexes One = [Atom Digit]"
| "item_regexes Oct = [Atom (Range CHR ''0'' CHR ''7'')]"
| "item_regexes (Choice ws) = [Grp 2 (alts (map Str ws))]"

definition code_of :: "item list \<Rightarrow> regex" where
  "code_of sh = esc (concat (map item_regexes sh))"

fun plain :: "item \<Rightarrow> bool" where
  "plain (Run n w) = (case w of [] \<Rightarrow> False | c # cs \<Rightarrow> if isdecimal c then False else True)"
| "plain (Choice ws) =
     (list_all (\<lambda>w. case w of [] \<Rightarrow> False | c # cs \<Rightarrow> True) ws \<and> distinct (map hd ws))"
| "plain i = True"

section \<open>Values, errors and string methods of the source language\<close>

text \<open>
  An exception that leaves a function is a value \<open>Inl e\<close>; a normal return is \<open>Inr v\<close>.
  A dictionary is an association list in insertion order with one entry for each key;
  \<open>None\<close> of the source language is \<open>None\<close> of an option type.
\<close>

datatype error = KeyError | IndexError | AttributeError | TypeError | ValueError | ParseError

type_synonym ('k, 'v) dict = "('k \<times> 'v) list"

definition dict_get :: "('k, 'v) dict \<Rightarrow> 'k \<Rightarrow> error + 'v" where
  "dict_get d k = (case map_of d k of None \<Rightarrow> Inl KeyError | Some v \<Rightarrow> Inr v)"

definition dict_set :: "('k, 'v) dict \<Rightarrow> 'k \<Rightarrow> 'v \<Rightarrow> ('k, 'v) dict" where
  "dict_set d k v = AList.update k v d"

definition dict_has :: "('k, 'v) dict \<Rightarrow> 'k \<Rightarrow> bool" where
  "dict_has d k = (case map_of d k of None \<Rightarrow> False | Some v \<Rightarrow> True)"

definition linebreak :: "char \<Rightarrow> bool" where
  "linebreak c \<longleftrightarrow> c \<in> set [CHR 0x0A, CHR 0x0B, CHR 0x0C, CHR 0x0D, CHR 0x1C, CHR 0x1D,
     CHR 0x1E, CHR 0x85]"

text \<open>\<open>str.splitlines()\<close>; the pair carriage return, line feed is one line boundary.\<close>

fun splitlines_acc :: "string \<Rightarrow> string \<Rightarrow> string list" where
  "splitlines_acc cur [] = (if cur = [] then [] else [rev cur])"
| "splitlines_acc cur [c] = (if linebreak c then [rev cur] else [rev (c # cur)])"
| "splitlines_acc cur (c # d # ds) =
     (if c = CHR 0x0D \<and> d = CHR 0x0A then rev cur # splitlines_acc [] ds
      else if linebreak c then rev cur # splitlines_acc [] (d # ds)
      else splitlines_acc (c # cur) (d # ds))"

definition splitlines :: "string \<Rightarrow> string list" where
  "splitlines s = splitlines_acc [] s"

text \<open>\<open>str.split()\<close> without an argument: the runs of characters that are not whitespace.\<close>

fun split_acc :: "string \<Rightarrow> string \<Rightarrow> string list" where
  "split_acc cur [] = (if cur = [] then [] else [rev cur])"
| "split_acc cur (c # cs) =
     (if isspace c then (if cur = [] then split_acc [] cs else rev cur # split_acc [] cs)
      else split_acc (c # cur) cs)"

definition split_ws :: "string \<Rightarrow> string list" where
  "split_ws s = split_acc [] s"

text \<open>\<open>str.split(sep)\<close> for a separator of one character.\<close>

fun split_on_acc :: "char \<Rightarrow> string \<Rightarrow> string \<Rightarrow> string list" where
  "split_on_acc sep cur [] = [rev cur]"
| "split_on_acc sep cur (c # cs) =
     (if c = sep then rev cur # split_on_acc sep [] cs else split_on_acc sep (c # cur) cs)"

definition split_on :: "char \<Rightarrow> string \<Rightarrow> string list" where
  "split_on sep s = split_on_acc sep [] s"

definition strip :: "string \<Rightarrow> string" where
  "strip s = rev (dropWhile isspace (rev (dropWhile isspace s)))"

text \<open>\<open>sub in s\<close> for two texts.\<close>

fun contains :: "string \<Rightarrow> string \<Rightarrow> bool" where
  "contains sub [] = (sub = [])"
| "contains sub (c # cs) = (if take (length sub) (c # cs) = sub then True else contains sub cs)"

definition replace_char :: "char \<Rightarrow> char \<Rightarrow> string \<Rightarrow> string" where
  "replace_char old new s = map (\<lambda>c. if c = old then new else c) s"

fun join :: "string \<Rightarrow> string list \<Rightarrow> string" where
  "join sep [] = []"
| "join sep [x] = x"
| "join sep (x # y # ys) = x @ sep @ join sep (y # ys)"

fun index_of :: "'a \<Rightarrow> 'a list \<Rightarrow> nat option" where
  "index_of x [] = None"
| "index_of x (y # ys) = (if x = y then Some 0 else map_option Suc (index_of x ys))"

definition item :: "'a list \<Rightarrow> nat \<Rightarrow> error + 'a" where
  "item xs i = (if i < length xs then Inr (xs ! i) else Inl IndexError)"

text \<open>
  \<open>int(s)\<close> for a text.  The whitespace that \<open>int\<close> drops around the number is narrower
  than that of \<open>str.strip()\<close>: the characters from U+001C to U+001F are not dropped.  A
  sign may lead, the digits may be grouped by single underscores, and a numeral of more
  than 4300 digits raises \<open>ValueError\<close>.
\<close>

definition int_space :: "char \<Rightarrow> bool" where
  "int_space c \<longleftrightarrow> c \<in> set [CHR 0x09, CHR 0x0A, CHR 0x0B, CHR 0x0C, CHR 0x0D, CHR 0x20,
     CHR 0x85, CHR 0xA0]"

definition int_strip :: "string \<Rightarrow> string" where
  "int_strip s = rev (dropWhile int_space (rev (dropWhile int_space s)))"

definition digit_value :: "char \<Rightarrow> int" where
  "digit_value c = int (of_char c) - 48"

fun int_digits :: "int \<Rightarrow> bool \<Rightarrow> string \<Rightarrow> int option" where
  "int_digits acc prev [] = (if prev then Some acc else None)"
| "int_digits acc prev (c # cs) =
     (if isdecimal c then int_digits (10 * acc + digit_value c) True cs
      else if c = CHR ''_'' \<and> prev then
        (case cs of [] \<Rightarrow> None
         | d # _ \<Rightarrow> if isdecimal d then int_digits acc False cs else None)
      else None)"

definition numeral_value :: "string \<Rightarrow> int option" where
  "numeral_value ds =
     (if length (filter isdecimal ds) > 4300 then None else int_digits 0 False ds)"

definition py_int :: "string \<Rightarrow> error + int" where
  "py_int s =
     (case int_strip s of
        [] \<Rightarrow> Inl ValueError
      | c # cs \<Rightarrow>
          if c = CHR ''-'' then
            (case numeral_value cs of None \<Rightarrow> Inl ValueError | Some n \<Rightarrow> Inr (- n))
          else if c = CHR ''+'' then
            (case numeral_value cs of None \<Rightarrow> Inl ValueError | Some n \<Rightarrow> Inr n)
          else
            (case numeral_value (c # cs) of None \<Rightarrow> Inl ValueError | Some n \<Rightarrow> Inr n))"

text \<open>\<open>int(v)\<close> for a value that may be \<open>None\<close>.\<close>

definition py_int_opt :: "string option \<Rightarrow> error + int" where
  "py_int_opt v = (case v of None \<Rightarrow> Inl TypeError | Some s \<Rightarrow> py_int s)"

text \<open>The text an f-string puts for a value that may be \<open>None\<close>.\<close>

definition fmt :: "string option \<Rightarrow> string" where
  "fmt v = (case v of None \<Rightarrow> ''None'' | Some s \<Rightarrow> s)"

section \<open>Element trees\<close>

text \<open>
  The tree that \<open>ET.fromstring\<close> returns: a tag, the attributes, the text before the first
  child (\<open>None\<close> when there is none) and the children.  The parser itself belongs to the
  standard library; the functions that call it take it as the parameter \<open>fromstring\<close>.
\<close>

datatype elem = Elem (tag: string) (attrib: "(string, string) dict") (elem_text: "string option")
  (children: "elem list")

type_synonym parser = "string \<Rightarrow> error + elem"

text \<open>\<open>elem.iter()\<close>: the element and all its descendants, in document order.\<close>

fun iter :: "elem \<Rightarrow> elem list" where
  "iter (Elem t a x cs) = Elem t a x cs # concat (map iter cs)"

text \<open>\<open>root.findall("instance")\<close>: the children of the root with the tag.\<close>

definition findall_child :: "string \<Rightarrow> elem \<Rightarrow> elem list" where
  "findall_child t root = filter (\<lambda>e. tag e = t) (children root)"

text \<open>\<open>root.findall(".//instance")\<close>: the elements below the root with the tag.\<close>

definition findall_desc :: "string \<Rightarrow> elem \<Rightarrow> elem list" where
  "findall_desc t root = filter (\<lambda>e. tag e = t) (concat (map iter (children root)))"

text \<open>\<open>root.findall('.//hierarchy[@name="isam"]')\<close>.\<close>

definition findall_desc_named :: "string \<Rightarrow> string \<Rightarrow> elem \<Rightarrow> elem list" where
  "findall_desc_named t n root =
     filter (\<lambda>e. tag e = t \<and> map_of (attrib e) ''name'' = Some n)
       (concat (map iter (children root)))"

section \<open>Flattening elements into records\<close>

type_synonym field_record = "(string, string option) dict"

text \<open>\<open>_convert_xml_elem_to_dict\<close>\<close>

fun elem_to_dict_loop :: "elem list \<Rightarrow> field_record \<Rightarrow> error + field_record" where
  "elem_to_dict_loop [] data = Inr data"
| "elem_to_dict_loop (e # es) data =
     (if ''instance'' = tag e then elem_to_dict_loop es data
      else case dict_get (attrib e) ''name'' of
             Inl err \<Rightarrow> Inl err
           | Inr name \<Rightarrow>
               (let key_name = replace_char CHR '' '' CHR ''_'' name;
                    key_value = elem_text e
                in elem_to_dict_loop es (dict_set data key_name key_value)))"

definition convert_xml_elem_to_dict :: "elem \<Rightarrow> error + field_record" where
  "convert_xml_elem_to_dict elem = elem_to_dict_loop (iter elem) []"

text \<open>\<open>convert_xml_to_list\<close>\<close>

fun instance_fields :: "elem list \<Rightarrow> field_record \<Rightarrow> error + field_record" where
  "instance_fields [] data = Inr data"
| "instance_fields (element # es) data =
     (case dict_get (attrib element) ''name'' of
        Inl err \<Rightarrow> Inl err
      | Inr name \<Rightarrow> (let value = elem_text element in instance_fields es (dict_set data name value)))"

fun instances_loop :: "elem list \<Rightarrow> error + field_record list" where
  "instances_loop [] = Inr []"
| "instances_loop (instance_elem # rest) =
     (case instance_fields (children instance_elem) [] of
        Inl err \<Rightarrow> Inl err
      | Inr data \<Rightarrow>
          (case instances_loop rest of
             Inl err \<Rightarrow> Inl err
           | Inr instances \<Rightarrow> Inr (data # instances)))"

definition instances_of_root :: "elem \<Rightarrow> error + field_record list" where
  "instances_of_root root = instances_loop (findall_child ''instance'' root)"

definition sanitize :: "string \<Rightarrow> string" where
  "sanitize xml_data =
     strip (concat (filter (\<lambda>line. if contains ''hierarchy'' line then False else True)
       (splitlines xml_data)))"

definition convert_xml_to_list :: "parser \<Rightarrow> string \<Rightarrow> error + field_record list option" where
  "convert_xml_to_list fromstring xml_data =
     (if xml_data \<noteq> [] then
        (case fromstring (sanitize xml_data) of
           Inl err \<Rightarrow> Inl err
         | Inr root \<Rightarrow>
             (case instances_of_root root of
                Inl err \<Rightarrow> Inl err
              | Inr instances \<Rightarrow> Inr (Some instances)))
      else Inr None)"

text \<open>\<open>_convert_list_to_dict\<close>; a record without the key raises \<open>KeyError\<close>, which is passed over.\<close>

type_synonym keyed_records = "(string option, field_record) dict"

fun list_to_dict_loop :: "field_record list \<Rightarrow> string \<Rightarrow> keyed_records \<Rightarrow> keyed_records" where
  "list_to_dict_loop [] key data_dict = data_dict"
| "list_to_dict_loop (record # rest) key data_dict =
     (case dict_get record key of
        Inl err \<Rightarrow> list_to_dict_loop rest key data_dict
      | Inr v \<Rightarrow> list_to_dict_loop rest key (dict_set data_dict v record))"

definition convert_list_to_dict :: "field_record list \<Rightarrow> string \<Rightarrow> keyed_records" where
  "convert_list_to_dict data key = list_to_dict_loop data key []"

section \<open>Sending a command\<close>

text \<open>
  \<open>_send_command\<close>: the device is the function from the command line that is sent to the
  text that comes back; with \<open>xml_format\<close> the word \<open>xml\<close> is put behind the command.
\<close>

type_synonym device = "string \<Rightarrow> string"

definition send_command :: "device \<Rightarrow> string \<Rightarrow> bool \<Rightarrow> string" where
  "send_command dev command xml_format =
     dev (if xml_format then command @ '' xml'' else command)"

definition and_then :: "error + 'a \<Rightarrow> ('a \<Rightarrow> error + 'b) \<Rightarrow> error + 'b" where
  "and_then r f = (case r of Inl err \<Rightarrow> Inl err | Inr v \<Rightarrow> f v)"

section \<open>Operations that key the records of one command\<close>

text \<open>
  The operations from \<open>get_equipment_ont_status_xpon\<close> to \<open>get_equipment_temperature\<close>
  have one shape: send the command; if text came back, list its records and key them,
  otherwise return a sentence that says that no data is available.
\<close>

datatype 'a reply = Data 'a | NoData string

definition no_data_plain :: "string \<Rightarrow> string" where
  "no_data_plain hostname = ''No available data from the '' @ hostname"

definition no_data_starred :: "string \<Rightarrow> string \<Rightarrow> string" where
  "no_data_starred command hostname =
     ''No available ** '' @ command @ '' ** data from the '' @ hostname"

definition keyed_reply :: "parser \<Rightarrow> string \<Rightarrow> string \<Rightarrow> string \<Rightarrow> error + keyed_records reply" where
  "keyed_reply fromstring data key message =
     (if data \<noteq> [] then
        (case convert_xml_to_list fromstring data of
           Inl err \<Rightarrow> Inl err
         | Inr data_list \<Rightarrow>
             (case data_list of
                None \<Rightarrow> Inl TypeError
              | Some records \<Rightarrow> Inr (Data (convert_list_to_dict records key))))
      else Inr (NoData message))"

definition keyed_plain :: "string \<Rightarrow> string \<Rightarrow> parser \<Rightarrow> device \<Rightarrow> string \<Rightarrow> error + keyed_records reply" where
  "keyed_plain command key fromstring dev hostname =
     keyed_reply fromstring (send_command dev command True) key (no_data_plain hostname)"

definition keyed_starred :: "string \<Rightarrow> string \<Rightarrow> parser \<Rightarrow> device \<Rightarrow> string \<Rightarrow> error + keyed_records reply" where
  "keyed_starred command key fromstring dev hostname =
     keyed_reply fromstring (send_command dev command True) key (no_data_starred command hostname)"

definition get_equipment_ont_status_xpon :: "parser \<Rightarrow> device \<Rightarrow> string \<Rightarrow> error + keyed_records reply" where
  "get_equipment_ont_status_xpon = keyed_plain ''show equipment ont status x-pon'' ''ont''"

definition get_equipment_ont_interfaces :: "parser \<Rightarrow> device \<Rightarrow> string \<Rightarrow> error + keyed_records reply" where
  "get_equipment_ont_interfaces = keyed_plain ''show equipment ont interface'' ''ont-idx''"

definition get_equipment_ont_status_pon :: "parser \<Rightarrow> device \<Rightarrow> string \<Rightarrow> error + keyed_records reply" where
  "get_equipment_ont_status_pon = keyed_plain ''show equipment ont status pon'' ''ont''"

definition get_vlan_residential_bridge :: "parser \<Rightarrow> device \<Rightarrow> string \<Rightarrow> error + keyed_records reply" where
  "get_vlan_residential_bridge = keyed_plain ''show vlan residential-bridge extensive'' ''vlan-port''"

definition get_unprovision_devices :: "parser \<Rightarrow> device \<Rightarrow> string \<Rightarrow> error + keyed_records reply" where
  "get_unprovision_devices = keyed_plain ''show pon unprovision-onu'' ''gpon-index''"

definition get_equipment_slot :: "parser \<Rightarrow> device \<Rightarrow> string \<Rightarrow> error + keyed_records reply" where
  "get_equipment_slot = keyed_starred ''show equipment slot'' ''slot''"

definition get_equipment_slot_detail :: "parser \<Rightarrow> device \<Rightarrow> string \<Rightarrow> error + keyed_records reply" where
  "get_equipment_slot_detail = keyed_starred ''show equipment slot detail'' ''slot''"

definition get_equipment_ont_slot :: "parser \<Rightarrow> device \<Rightarrow> string \<Rightarrow> error + keyed_records reply" where
  "get_equipment_ont_slot = keyed_starred ''show equipment ont slot'' ''ont-slot-idx''"

definition get_equipment_ont_optics :: "parser \<Rightarrow> device \<Rightarrow> string \<Rightarrow> error + keyed_records reply" where
  "get_equipment_ont_optics = keyed_starred ''show equipment ont optics'' ''ont-idx''"

definition get_pon_optics :: "parser \<Rightarrow> device \<Rightarrow> string \<Rightarrow> error + keyed_records reply" where
  "get_pon_optics = keyed_starred ''show pon optics'' ''pon-idx''"

definition get_equipment_ont_sw_downloads :: "parser \<Rightarrow> device \<Rightarrow> string \<Rightarrow> error + keyed_records reply" where
  "get_equipment_ont_sw_downloads = keyed_starred ''show equipment ont sw-download'' ''ont-idx''"

definition get_vlan_fdb_board :: "parser \<Rightarrow> device \<Rightarrow> string \<Rightarrow> error + keyed_records reply" where
  "get_vlan_fdb_board = keyed_starred ''show vlan fdb-board'' ''mac''"

definition get_ethernet_ont_operational_data :: "parser \<Rightarrow> device \<Rightarrow> string \<Rightarrow> error + keyed_records reply" where
  "get_ethernet_ont_operational_data = keyed_starred ''show ethernet ont operational-data'' ''uni-idx''"

definition get_equipment_ont_sw_version :: "parser \<Rightarrow> device \<Rightarrow> string \<Rightarrow> error + keyed_records reply" where
  "get_equipment_ont_sw_version = keyed_starred ''show equipment ont sw-version'' ''sw-ver-id''"

definition get_equipment_transceiver_inventor :: "parser \<Rightarrow> device \<Rightarrow> string \<Rightarrow> error + keyed_records reply" where
  "get_equipment_transceiver_inventor = keyed_starred ''show equipment transceiver-inventor'' ''index''"

definition get_equipment_diagnostics_sfp :: "parser \<Rightarrow> device \<Rightarrow> string \<Rightarrow> error + keyed_records reply" where
  "get_equipment_diagnostics_sfp = keyed_starred ''show equipment diagnostics sfp'' ''position''"

definition get_vlan_name :: "parser \<Rightarrow> device \<Rightarrow> string \<Rightarrow> error + keyed_records reply" where
  "get_vlan_name = keyed_starred ''show vlan name'' ''id''"

definition get_equipment_temperature :: "parser \<Rightarrow> device \<Rightarrow> string \<Rightarrow> error + keyed_records reply" where
  "get_equipment_temperature = keyed_starred ''show equipment temperature'' ''sensor-id''"

text \<open>
  The operations of this shape, each with the command whose reply it reads and with
  whether its sentence for no data names the command between stars.
\<close>

definition keyed_operations ::
  "(string \<times> bool \<times> (parser \<Rightarrow> device \<Rightarrow> string \<Rightarrow> error + keyed_records reply)) list" where
  "keyed_operations = [
     (''show equipment ont status x-pon'', False, get_equipment_ont_status_xpon),
     (''show equipment ont interface'', False, get_equipment_ont_interfaces),
     (''show equipment ont status pon'', False, get_equipment_ont_status_pon),
     (''show vlan residential-bridge extensive'', False, get_vlan_residential_bridge),
     (''show pon unprovision-onu'', False, get_unprovision_devices),
     (''show equipment slot'', True, get_equipment_slot),
     (''show equipment slot detail'', True, get_equipment_slot_detail),
     (''show equipment ont slot'', True, get_equipment_ont_slot),
     (''show equipment ont optics'', True, get_equipment_ont_optics),
     (''show pon optics'', True, get_pon_optics),
     (''show equipment ont sw-download'', True, get_equipment_ont_sw_downloads),
     (''show vlan fdb-board'', True, get_vlan_fdb_board),
     (''show ethernet ont operational-data'', True, get_ethernet_ont_operational_data),
     (''show equipment ont sw-version'', True, get_equipment_ont_sw_version),
     (''show equipment transceiver-inventor'', True, get_equipment_transceiver_inventor),
     (''show equipment diagnostics sfp'', True, get_equipment_diagnostics_sfp),
     (''show vlan name'', True, get_vlan_name),
     (''show equipment temperature'', True, get_equipment_temperature)]"

section \<open>The bridge-port table\<close>

text \<open>\<open>get_vlan_bridge_port_fdb\<close>\<close>

type_synonym fdb_dict = "(string option, (string option \<times> string option) list) dict"

text \<open>
  The inner loop \<open>for i in tmp_data\<close>: at the first pair whose second component differs
  from \<open>mac_\<close> (here \<open>mac'\<close>) the new pair is put behind the list of the port, and the loop is left.
\<close>

fun fdb_scan :: "(string option \<times> string option) list \<Rightarrow> (string option \<times> string option) list \<Rightarrow>
    string option \<Rightarrow> string option \<Rightarrow> string option \<Rightarrow> fdb_dict \<Rightarrow> fdb_dict" where
  "fdb_scan [] tmp_data port' vlan_id' mac' new_dict = new_dict"
| "fdb_scan (i # rest) tmp_data port' vlan_id' mac' new_dict =
     (let m = snd i in
      if m \<noteq> mac' then dict_set new_dict port' (tmp_data @ [(vlan_id', mac')])
      else fdb_scan rest tmp_data port' vlan_id' mac' new_dict)"

fun fdb_loop :: "field_record list \<Rightarrow> fdb_dict \<Rightarrow> error + fdb_dict" where
  "fdb_loop [] new_dict = Inr new_dict"
| "fdb_loop (entry # rest) new_dict =
     and_then (dict_get entry ''port'') (\<lambda>port'.
     and_then (dict_get entry ''vlan-id'') (\<lambda>vlan_id'.
     and_then (dict_get entry ''mac'') (\<lambda>mac'.
       (let scanned =
              (case map_of new_dict port' of
                 Some tmp_data \<Rightarrow> fdb_scan tmp_data tmp_data port' vlan_id' mac' new_dict
               | None \<Rightarrow> new_dict);
            added =
              (if dict_has scanned port' then scanned
               else dict_set scanned port' [(vlan_id', mac')])
        in fdb_loop rest added))))"

definition get_vlan_bridge_port_fdb :: "parser \<Rightarrow> device \<Rightarrow> string \<Rightarrow> error + fdb_dict reply" where
  "get_vlan_bridge_port_fdb fromstring dev hostname =
     (let command = ''show vlan bridge-port-fdb'';
          data = send_command dev command True
      in if data \<noteq> [] then
           and_then (convert_xml_to_list fromstring data) (\<lambda>tmp_data.
             (case tmp_data of
                None \<Rightarrow> Inl TypeError
              | Some loaded_data \<Rightarrow>
                  and_then (fdb_loop loaded_data []) (\<lambda>new_dict. Inr (Data new_dict))))
         else Inr (NoData (no_data_starred command hostname)))"

section \<open>The time servers\<close>

text \<open>
  \<open>get_ntp_servers\<close>: the reply goes to \<open>convert_xml_to_list\<close> unguarded, and the result is
  iterated; iterating \<open>None\<close> raises \<open>TypeError\<close>.  The inner loop runs over the keys of a
  record with the value of each.
\<close>

type_synonym ntp_dict = "(string, string option list) dict"

fun ntp_keys :: "(string \<times> string option) list \<Rightarrow> ntp_dict \<Rightarrow> ntp_dict" where
  "ntp_keys [] ntp_servers = ntp_servers"
| "ntp_keys ((key, v) # rest) ntp_servers =
     (if key = ''server-ip-addrv6'' then
        ntp_keys rest (dict_set ntp_servers key
          ((case map_of ntp_servers key of None \<Rightarrow> [] | Some l \<Rightarrow> l) @ [v]))
      else ntp_keys rest ntp_servers)"

fun ntp_loop :: "field_record list \<Rightarrow> ntp_dict \<Rightarrow> ntp_dict" where
  "ntp_loop [] ntp_servers = ntp_servers"
| "ntp_loop (sub # rest) ntp_servers = ntp_loop rest (ntp_keys sub ntp_servers)"

definition get_ntp_servers :: "parser \<Rightarrow> device \<Rightarrow> error + ntp_dict" where
  "get_ntp_servers fromstring dev =
     (let command = ''show sntp server-tablev6 '';
          data = send_command dev command True
      in and_then (convert_xml_to_list fromstring data) (\<lambda>data.
           (case data of
              None \<Rightarrow> Inl TypeError
            | Some records \<Rightarrow> Inr (ntp_loop records []))))"

section \<open>Device facts\<close>

text \<open>
  The values of the facts dictionary: a text, \<open>None\<close> (an element without text, or no
  model line), or the list of interfaces.
\<close>

datatype fact_value = FNone | FStr string | FList "string list"

type_synonym facts = "(string, fact_value) dict"

definition fact_of :: "string option \<Rightarrow> fact_value" where
  "fact_of v = (case v of None \<Rightarrow> FNone | Some s \<Rightarrow> FStr s)"

text \<open>\<open>make_device_model\<close>\<close>

fun device_model_lines :: "string list \<Rightarrow> error + string option" where
  "device_model_lines [] = Inr None"
| "device_model_lines (line # rest) =
     (if contains ''Copyright'' line \<and> contains ''NOKIA'' line then
        (let line_list = split_ws line in
         case index_of ''NOKIA'' line_list of
           None \<Rightarrow> Inl ValueError
         | Some nokia_index \<Rightarrow>
             and_then (item line_list (nokia_index + 1)) (\<lambda>a.
             and_then (item line_list (nokia_index + 2)) (\<lambda>b.
               Inr (Some (a @ '' '' @ b)))))
      else device_model_lines rest)"

definition make_device_model :: "string \<Rightarrow> error + string option" where
  "make_device_model data = (if data \<noteq> [] then device_model_lines (splitlines data) else Inr None)"

text \<open>The loops of \<open>get_facts\<close>, in the order of the source.\<close>

fun hostname_loop :: "elem list \<Rightarrow> facts \<Rightarrow> error + facts" where
  "hostname_loop [] facts = Inr facts"
| "hostname_loop (elem # rest) facts =
     and_then (convert_xml_elem_to_dict elem) (\<lambda>dummy_data.
       if dict_has dummy_data ''description'' then
         and_then (dict_get dummy_data ''description'') (\<lambda>hostname.
           hostname_loop rest
             (dict_set (dict_set (dict_set (dict_set (dict_set (dict_set (dict_set facts
                ''hostname'' (fact_of hostname))
                ''vendor'' (FStr ''Nokia''))
                ''uptime'' (FStr ''''))
                ''os_version'' (FStr ''''))
                ''serial_number'' (FStr ''''))
                ''fqdn'' (FStr ''Unknown''))
                ''interface_list'' (FList [])))
       else hostname_loop rest facts)"

fun os_loop :: "elem list \<Rightarrow> facts \<Rightarrow> error + facts" where
  "os_loop [] facts = Inr facts"
| "os_loop (elem # rest) facts =
     and_then (convert_xml_elem_to_dict elem) (\<lambda>dummy_data.
       if dict_has dummy_data ''isam-feature-group'' then
         and_then (dict_get dummy_data ''isam-feature-group'') (\<lambda>os_version.
           os_loop rest (dict_set facts ''os_version'' (fact_of os_version)))
       else os_loop rest facts)"

text \<open>\<open>facts["model"] += f" ({variant})"\<close> raises \<open>TypeError\<close> when the model is \<open>None\<close>.\<close>

definition add_variant :: "facts \<Rightarrow> string option \<Rightarrow> error + facts" where
  "add_variant facts variant =
     and_then (dict_get facts ''model'') (\<lambda>model.
       case model of
         FStr m \<Rightarrow> Inr (dict_set facts ''model'' (FStr (m @ '' ('' @ fmt variant @ '')'')))
       | FNone \<Rightarrow> Inl TypeError
       | FList l \<Rightarrow> Inl TypeError)"

fun sn_loop :: "elem list \<Rightarrow> facts \<Rightarrow> error + facts" where
  "sn_loop [] facts = Inr facts"
| "sn_loop (elem # rest) facts =
     and_then (convert_xml_elem_to_dict elem) (\<lambda>dummy_data.
       and_then
         (if dict_has dummy_data ''serial-no'' then
            and_then (dict_get dummy_data ''serial-no'') (\<lambda>serial_number.
              Inr (dict_set facts ''serial_number'' (fact_of serial_number)))
          else Inr facts) (\<lambda>facts1.
       and_then
         (if dict_has dummy_data ''variant'' then
            and_then (dict_get dummy_data ''variant'') (\<lambda>variant. add_variant facts1 variant)
          else Inr facts1) (\<lambda>facts2.
       sn_loop rest facts2)))"

text \<open>
  The uptime loop: \<open>split_line[1]\<close> and the four calls of \<open>pop(0)\<close> raise \<open>IndexError\<close> on a
  line with too few words.
\<close>

fun uptime_loop :: "string list \<Rightarrow> facts \<Rightarrow> error + facts" where
  "uptime_loop [] facts = Inr facts"
| "uptime_loop (line # rest) facts =
     (case split_ws line of
        [] \<Rightarrow> uptime_loop rest facts
      | w0 # ws \<Rightarrow>
          if contains ''System'' w0 then
            (case ws of
               [] \<Rightarrow> Inl IndexError
             | w1 # _ \<Rightarrow>
                 if contains ''Up'' w1 then
                   (if length (w0 # ws) < 4 then Inl IndexError
                    else
                      (let uptime = join '' '' (drop 4 (w0 # ws)) in
                       uptime_loop rest (dict_set facts ''uptime'' (FStr uptime))))
                 else uptime_loop rest facts)
          else uptime_loop rest facts)"

fun port_loop :: "elem list \<Rightarrow> string option list \<Rightarrow> error + string option list" where
  "port_loop [] port_list = Inr port_list"
| "port_loop (elem # rest) port_list =
     and_then (convert_xml_elem_to_dict elem) (\<lambda>dummy_data.
       if dict_has dummy_data ''ont-idx'' then
         and_then (dict_get dummy_data ''ont-idx'') (\<lambda>p. port_loop rest (port_list @ [p]))
       else port_loop rest port_list)"

text \<open>
  \<open>port_list.sort(key=lambda p: list(map(int, p.split("/"))))\<close>: the keys are computed
  for the whole list, then the list is sorted by them, equal keys keeping their order.
\<close>

fun ints :: "string list \<Rightarrow> error + int list" where
  "ints [] = Inr []"
| "ints (w # ws) = and_then (py_int w) (\<lambda>n. and_then (ints ws) (\<lambda>ns. Inr (n # ns)))"

definition port_key :: "string option \<Rightarrow> error + int list" where
  "port_key p = (case p of None \<Rightarrow> Inl AttributeError | Some s \<Rightarrow> ints (split_on CHR ''/'' s))"

fun port_keys :: "string option list \<Rightarrow> error + (int list \<times> string) list" where
  "port_keys [] = Inr []"
| "port_keys (p # ps) =
     and_then (port_key p) (\<lambda>k.
     and_then (port_keys ps) (\<lambda>ks. Inr ((k, fmt p) # ks)))"

definition sort_ports :: "string option list \<Rightarrow> error + string list" where
  "sort_ports port_list = and_then (port_keys port_list) (\<lambda>ks. Inr (map snd (sort_key fst ks)))"

text \<open>\<open>get_facts\<close> from the line \<open>facts = {}\<close> on, and the whole operation.\<close>

definition get_facts_trees ::
  "elem \<Rightarrow> elem \<Rightarrow> string \<Rightarrow> elem \<Rightarrow> elem \<Rightarrow> string option \<Rightarrow> error + facts" where
  "get_facts_trees hostname_xml_tree os_xml_tree uptime_output sn_xml_tree port_xml_tree
       device_model =
     and_then (hostname_loop (findall_desc_named ''hierarchy'' ''isam'' hostname_xml_tree)
                 (dict_set [] ''model'' (fact_of device_model))) (\<lambda>facts1.
     and_then (os_loop (findall_desc_named ''hierarchy'' ''ansi'' os_xml_tree) facts1) (\<lambda>facts2.
     and_then (sn_loop (findall_desc_named ''hierarchy'' ''shelf'' sn_xml_tree) facts2) (\<lambda>facts3.
     and_then (uptime_loop (splitlines uptime_output) facts3) (\<lambda>facts4.
     and_then (port_loop (findall_desc ''instance'' port_xml_tree) []) (\<lambda>port_list.
     and_then (sort_ports port_list) (\<lambda>sorted_list.
       Inr (dict_set facts4 ''interface_list'' (FList sorted_list))))))))"

definition get_facts :: "parser \<Rightarrow> device \<Rightarrow> error + facts" where
  "get_facts fromstring dev =
     (let hostname_output = send_command dev ''show equipment isam detail'' True;
          os_output = send_command dev ''show software-mngt version ansi'' True;
          uptime_output = send_command dev ''show core1-uptime'' False;
          sn_output = send_command dev ''show equipment shelf 1/1 detail'' True;
          port_output = send_command dev ''show equipment ont interface'' True;
          model_output = send_command dev ''admin display-config'' False
      in and_then (make_device_model model_output) (\<lambda>device_model.
         and_then (fromstring hostname_output) (\<lambda>hostname_xml_tree.
         and_then (fromstring os_output) (\<lambda>os_xml_tree.
         and_then (fromstring sn_output) (\<lambda>sn_xml_tree.
         and_then (fromstring port_output) (\<lambda>port_xml_tree.
           get_facts_trees hostname_xml_tree os_xml_tree uptime_output sn_xml_tree
             port_xml_tree device_model))))))"

section \<open>The VLAN table\<close>

text \<open>\<open>get_vlans\<close>; an entry of the result holds the name and the interfaces of one VLAN.\<close>

record vlan_entry =
  vlan_name :: "string option"
  vlan_interfaces :: "string list"

type_synonym vlans = "(int, vlan_entry) dict"

fun vlan_name_loop :: "elem list \<Rightarrow> vlans \<Rightarrow> error + vlans" where
  "vlan_name_loop [] vlans = Inr vlans"
| "vlan_name_loop (elem # rest) vlans =
     and_then (convert_xml_elem_to_dict elem) (\<lambda>dummy_data.
     and_then (dict_get dummy_data ''id'') (\<lambda>idv.
     and_then (py_int_opt idv) (\<lambda>primary_key.
       if dict_has vlans primary_key then vlan_name_loop rest vlans
       else
         and_then (dict_get dummy_data ''name'') (\<lambda>nm.
           vlan_name_loop rest
             (dict_set vlans primary_key \<lparr>vlan_name = nm, vlan_interfaces = []\<rparr>)))))"

text \<open>The condition on \<open>transmit-mode\<close>; \<open>in\<close> raises \<open>TypeError\<close> on \<open>None\<close>.\<close>

definition tagged_or_untagged :: "string option \<Rightarrow> error + bool" where
  "tagged_or_untagged transmit_mode =
     (case transmit_mode of
        None \<Rightarrow> Inl TypeError
      | Some t \<Rightarrow> Inr (contains ''single-tagged'' t \<or> contains ''untagged'' t))"

definition port_of :: "string option \<Rightarrow> error + string" where
  "port_of port_raw =
     (case port_raw of
        None \<Rightarrow> Inl AttributeError
      | Some s \<Rightarrow> item (split_on CHR '':'' s) 1)"

fun vlan_tag_loop :: "elem list \<Rightarrow> vlans \<Rightarrow> error + vlans" where
  "vlan_tag_loop [] vlans = Inr vlans"
| "vlan_tag_loop (elem # rest) vlans =
     and_then (convert_xml_elem_to_dict elem) (\<lambda>dummy_data.
     and_then (dict_get dummy_data ''vlan-id'') (\<lambda>idv.
     and_then (py_int_opt idv) (\<lambda>vlan_id.
     and_then (dict_get dummy_data ''vlan-port'') (\<lambda>port_raw.
     and_then (port_of port_raw) (\<lambda>port.
     and_then (dict_get dummy_data ''transmit-mode'') (\<lambda>transmit_mode.
     and_then (tagged_or_untagged transmit_mode) (\<lambda>listed.
       if listed then
         and_then (dict_get vlans vlan_id) (\<lambda>entry.
           vlan_tag_loop rest
             (dict_set vlans vlan_id
                (entry\<lparr>vlan_interfaces := vlan_interfaces entry @ [port]\<rparr>)))
       else vlan_tag_loop rest vlans)))))))"

definition get_vlans_trees :: "elem \<Rightarrow> elem \<Rightarrow> error + vlans" where
  "get_vlans_trees output_xml_tree tag_xml_tree =
     and_then (vlan_name_loop (findall_desc ''instance'' output_xml_tree) []) (\<lambda>vlans.
       vlan_tag_loop (findall_desc ''instance'' tag_xml_tree) vlans)"

definition get_vlans :: "parser \<Rightarrow> device \<Rightarrow> error + vlans" where
  "get_vlans fromstring dev =
     (let vlan_name_output = send_command dev ''show vlan name'' True;
          tagging_output = send_command dev ''show vlan residential-bridge extensive'' True
      in and_then (fromstring vlan_name_output) (\<lambda>output_xml_tree.
         and_then (fromstring tagging_output) (\<lambda>tag_xml_tree.
           get_vlans_trees output_xml_tree tag_xml_tree)))"

section \<open>LLDP neighbours\<close>

text \<open>The patterns of the module, with the flags of their calls.\<close>

definition PORT_REGEX :: regex where
  "PORT_REGEX = cat [Bol,
     NotAhead (alts [Str ''='', Str ''-'', Atom Space, Str ''Port'', Seq (Str ''Id'') (Atom Dot)]),
     Rep 1 Dot, Eol]"

definition REMOTE_HOST_REGEX :: regex where
  "REMOTE_HOST_REGEX = cat [Bol, Str ''System Name'', Rep 1 (OneOf [Space, Chr CHR '':'']),
     Grp 1 (Rep 1 Dot), Eol]"

definition REMOTE_PORT_REGEX :: regex where
  "REMOTE_PORT_REGEX = cat [Bol, Str ''Port Id'', Rep 1 (OneOf [Space, Chr CHR '':'']),
     Grp 1 (cat [
       Rep 1 (OneOf [Range CHR ''0'' CHR ''9'', Range CHR ''a'' CHR ''z'',
                     Range CHR ''A'' CHR ''Z'', Chr CHR '':'']),
       Rep 0 (OneOf [Chr NL]),
       Rep 1 (OneOf [Space, Chr CHR 0x22, Chr CHR ''/'', Range CHR ''a'' CHR ''z'',
                     Range CHR ''A'' CHR ''Z'', Range CHR ''0'' CHR ''9'']),
       Eol])]"

definition REMOTE_CHASSIS_REGEX :: regex where
  "REMOTE_CHASSIS_REGEX = cat [Bol, Str ''Chassis Id'', Rep 3 (OneOf [Space]),
     Atom (OneOf [Chr CHR '':'', Space]), Grp 1 (Rep 1 Dot), Eol]"

definition REMOTE_PORT_DESCR_REGEX :: regex where
  "REMOTE_PORT_DESCR_REGEX = cat [Bol, Str ''Port Description'',
     Rep 1 (OneOf [Chr CHR '':'', Space]), Grp 1 (Rep 1 Dot), Eol]"

definition REMOTE_SYS_DESCR_REGEX :: regex where
  "REMOTE_SYS_DESCR_REGEX = cat [Behind 18 (Seq Bol (Str ''System Description'')),
     Rep 0 Space, Str '':'', Atom Space, Grp 1 (Rep 0 Dot), Ahead (Str [NL, NL, NL])]"

definition REMOTE_SYS_CAP_REGEX :: regex where
  "REMOTE_SYS_CAP_REGEX = cat [Bol, Str ''Supported Caps'', Rep 1 (OneOf [Space, Chr CHR '':'']),
     Grp 1 (Rep 1 Dot), Eol]"

definition REMOTE_SYS_EN_CAP_REGEX :: regex where
  "REMOTE_SYS_EN_CAP_REGEX = cat [Bol, Str ''Enabled Caps'', Rep 1 (OneOf [Space, Chr CHR '':'']),
     Grp 1 (Rep 1 Dot), Eol]"

text \<open>
  \<open>m.group(1)\<close> on the result of \<open>re.search\<close>; on \<open>None\<close> the attribute access raises
  \<open>AttributeError\<close>.
\<close>

definition group1 :: "rmatch option \<Rightarrow> error + string option" where
  "group1 m = (case m of None \<Rightarrow> Inl AttributeError | Some found \<Rightarrow> Inr (group found 1))"

text \<open>
  An item of \<open>re.findall\<close> for a pattern with one group: the text of the group, the empty
  text when the group took no part in the match.
\<close>

definition fmt_group :: "rmatch \<Rightarrow> string" where
  "fmt_group m = (case group m 1 of None \<Rightarrow> [] | Some t \<Rightarrow> t)"

text \<open>The ports of \<open>show port\<close>: the first word of each matching line that does not end in \<open>vport\<close>.\<close>

definition port_names :: "string \<Rightarrow> string list" where
  "port_names port_data =
     concat (map (\<lambda>m. case split_ws (whole m) of
                         [] \<Rightarrow> []
                       | w # ws \<Rightarrow> if last (w # ws) = ''vport'' then [] else [w])
       (re_findall PORT_REGEX port_data flags_M))"

record lldp_detail =
  parent_interface :: string
  remote_chassis_id :: "string option"
  remote_system_name :: "string option"
  remote_port :: "string option"
  remote_port_description :: "string option"
  remote_system_description :: "string option"
  remote_system_capab :: "string option"
  remote_system_enable_capab :: "string option"

text \<open>
  The \<open>try\<close> block at the end of the loop body of \<open>get_lldp_neighbors_detail\<close>: only
  \<open>IndexError\<close> is caught, and then the entry stays as it is.
\<close>

definition remote_port_of :: "string \<Rightarrow> lldp_detail \<Rightarrow> error + lldp_detail" where
  "remote_port_of lldp_data entry =
     and_then (group1 (re_search REMOTE_PORT_REGEX lldp_data flags_M)) (\<lambda>g.
       case g of
         None \<Rightarrow> Inl AttributeError
       | Some t \<Rightarrow>
           (case item (split_ws t) 1 of
              Inl err \<Rightarrow> Inr entry
            | Inr word \<Rightarrow>
                Inr (entry\<lparr>remote_port := Some (filter (\<lambda>c. c \<noteq> CHR 0x22) word)\<rparr>)))"

text \<open>
  The body of the loop over the ports for one port and the text of its remote-info
  command: no entry when no system name is found, else the entry or the exception.
\<close>

definition lldp_detail_entry :: "string \<Rightarrow> string \<Rightarrow> error + lldp_detail option" where
  "lldp_detail_entry port lldp_data =
     (let remote_host = re_findall REMOTE_HOST_REGEX lldp_data flags_M in
      if length remote_host > 0 then
        (let entry = \<lparr>parent_interface = port,
                remote_chassis_id = Some '''',
                remote_system_name = Some (fmt_group (hd remote_host)),
                remote_port = Some '''',
                remote_port_description = Some '''',
                remote_system_description = Some '''',
                remote_system_capab = Some '''',
                remote_system_enable_capab = Some ''''\<rparr>;
             remote_chassis_id_data = re_search REMOTE_CHASSIS_REGEX lldp_data flags_M;
             remote_port_descr_data = re_search REMOTE_PORT_DESCR_REGEX lldp_data flags_M;
             remote_sys_descr_data = re_search REMOTE_SYS_DESCR_REGEX lldp_data flags_SM;
             remote_sys_cap_data = re_search REMOTE_SYS_CAP_REGEX lldp_data flags_M;
             remote_sys_en_cap_data = re_search REMOTE_SYS_EN_CAP_REGEX lldp_data flags_M
         in and_then (group1 remote_chassis_id_data) (\<lambda>chassis.
            and_then (group1 remote_port_descr_data) (\<lambda>port_descr.
            and_then (group1 remote_sys_descr_data) (\<lambda>sys_descr.
            and_then (case sys_descr of
                        None \<Rightarrow> Inl AttributeError
                      | Some d \<Rightarrow> Inr (join '' '' (split_ws d))) (\<lambda>sys_descr_joined.
            and_then (group1 remote_sys_cap_data) (\<lambda>sys_cap.
            and_then (group1 remote_sys_en_cap_data) (\<lambda>sys_en_cap.
            and_then (remote_port_of lldp_data
                (entry\<lparr>remote_chassis_id := chassis,
                        remote_port_description := port_descr,
                        remote_system_description := Some sys_descr_joined,
                        remote_system_capab := sys_cap,
                        remote_system_enable_capab := sys_en_cap\<rparr>)) (\<lambda>filled.
              Inr (Some filled)))))))))
      else Inr None)"

type_synonym lldp_dict = "(string, lldp_detail list) dict"

fun lldp_detail_loop :: "device \<Rightarrow> string list \<Rightarrow> lldp_dict \<Rightarrow> error + lldp_dict" where
  "lldp_detail_loop dev [] lldp = Inr lldp"
| "lldp_detail_loop dev (port # rest) lldp =
     (let lldp_command = ''show port '' @ port @ '' ethernet lldp remote-info'';
          lldp_data = send_command dev lldp_command False
      in and_then (lldp_detail_entry port lldp_data) (\<lambda>found.
           case found of
             None \<Rightarrow> lldp_detail_loop dev rest lldp
           | Some entry \<Rightarrow> lldp_detail_loop dev rest (dict_set lldp port [entry])))"

definition get_lldp_neighbors_detail :: "device \<Rightarrow> error + lldp_dict" where
  "get_lldp_neighbors_detail dev =
     (let port_data = send_command dev ''show port'' False
      in lldp_detail_loop dev (port_names port_data) [])"

section \<open>Notions for the statements\<close>

text \<open>
  An element \<open>has_name\<close> when it carries the attribute \<open>name\<close>; \<open>name_attr\<close> reads it, and
  \<open>field_key\<close> is the key that \<open>_convert_xml_elem_to_dict\<close> makes of it.  The \<open>flattenable\<close>
  elements of a node are those that \<open>_convert_xml_elem_to_dict\<close> does not pass over, in
  document order.  \<open>last_with f xs x\<close> is the last item of \<open>xs\<close> that agrees with \<open>x\<close> on \<open>f\<close>.
\<close>

definition has_name :: "elem \<Rightarrow> bool" where
  "has_name e = dict_has (attrib e) ''name''"

definition name_attr :: "elem \<Rightarrow> string" where
  "name_attr e = (case map_of (attrib e) ''name'' of None \<Rightarrow> [] | Some n \<Rightarrow> n)"

definition field_key :: "elem \<Rightarrow> string" where
  "field_key e = replace_char CHR '' '' CHR ''_'' (name_attr e)"

definition flattenable :: "elem \<Rightarrow> elem list" where
  "flattenable elem = filter (\<lambda>e. tag e \<noteq> ''instance'') (iter elem)"

definition last_with :: "('a \<Rightarrow> 'k) \<Rightarrow> 'a list \<Rightarrow> 'a \<Rightarrow> 'a" where
  "last_with f xs x = last (filter (\<lambda>y. f y = f x) xs)"

section \<open>Sample documents\<close>

text \<open>
  Two replies of the appliance in its dialect, the text that \<open>convert_xml_to_list\<close> hands
  to the parser for each, and the tree that \<open>ET.fromstring\<close> returns for that text.  The
  examples below run the operations on these; \<open>sample_fromstring\<close> is the parser on the
  sample texts, and it rejects the empty text as the parser does.
\<close>

definition named :: "string \<Rightarrow> string" where
  "named n = '' name='' @ [CHR 0x22] @ n @ [CHR 0x22]"

definition slot_document :: string where
  "slot_document = concat [
     ''<runtime-data>'', [NL],
     ''<hierarchy'' @ named ''show'' @ ''>'', [NL],
     ''<instance><res-id'' @ named ''slot'' @ ''>lt:1/1/1</res-id>'' @
       ''<info'' @ named ''oper-status'' @ ''>up</info>'' @
       ''<info'' @ named ''error-status'' @ ''></info></instance>'', [NL],
     ''<instance><res-id'' @ named ''slot'' @ ''>lt:1/1/2</res-id>'' @
       ''<info'' @ named ''oper-status'' @ ''>down</info></instance>'', [NL],
     ''</hierarchy>'', [NL],
     ''</runtime-data>'', [NL]]"

definition slot_text :: string where
  "slot_text = concat [
     ''<runtime-data>'',
     ''<instance><res-id'' @ named ''slot'' @ ''>lt:1/1/1</res-id>'' @
       ''<info'' @ named ''oper-status'' @ ''>up</info>'' @
       ''<info'' @ named ''error-status'' @ ''></info></instance>'',
     ''<instance><res-id'' @ named ''slot'' @ ''>lt:1/1/2</res-id>'' @
       ''<info'' @ named ''oper-status'' @ ''>down</info></instance>'',
     ''</runtime-data>'']"

definition slot_tree :: elem where
  "slot_tree = Elem ''runtime-data'' [] None [
     Elem ''instance'' [] None [
       Elem ''res-id'' [(''name'', ''slot'')] (Some ''lt:1/1/1'') [],
       Elem ''info'' [(''name'', ''oper-status'')] (Some ''up'') [],
       Elem ''info'' [(''name'', ''error-status'')] None []],
     Elem ''instance'' [] None [
       Elem ''res-id'' [(''name'', ''slot'')] (Some ''lt:1/1/2'') [],
       Elem ''info'' [(''name'', ''oper-status'')] (Some ''down'') []]]"

definition nested_document :: string where
  "nested_document = concat [
     ''<runtime-data>'', [NL],
     ''<data><instance><info'' @ named ''a'' @ ''>1</info></instance></data>'', [NL],
     ''</runtime-data>'', [NL]]"

definition nested_text :: string where
  "nested_text = concat [
     ''<runtime-data>'',
     ''<data><instance><info'' @ named ''a'' @ ''>1</info></instance></data>'',
     ''</runtime-data>'']"

definition nested_tree :: elem where
  "nested_tree = Elem ''runtime-data'' [] None [
     Elem ''data'' [] None [
       Elem ''instance'' [] None [Elem ''info'' [(''name'', ''a'')] (Some ''1'') []]]]"

definition sample_fromstring :: parser where
  "sample_fromstring s =
     (if s = slot_text then Inr slot_tree
      else if s = nested_text then Inr nested_tree
      else Inl ParseError)"

text \<open>
  A device that answers every command with the empty text, and one that answers the
  slot command with the first sample.
\<close>

definition silent_device :: device where
  "silent_device command = []"

definition slot_device :: device where
  "slot_device command = (if command = ''show equipment slot xml'' then slot_document else [])"

text \<open>An instance as the residential-bridge command prints it, with one empty field.\<close>

definition sample_instance :: elem where
  "sample_instance = Elem ''instance'' [] None [
     Elem ''res-id'' [(''name'', ''vlan-id'')] (Some ''2940'') [],
     Elem ''info'' [(''name'', ''association type'')] (Some ''static'') [],
     Elem ''info'' [(''name'', ''cfgfile1-ver-act'')] None []]"

text \<open>
  A remote-info block with a system name and a port id and no chassis id; three records
  of the bridge-port table, the third repeating the first; and replies for \<open>get_facts\<close>
  in which the \<open>isam\<close> hierarchy has no \<open>description\<close> and only the shelf supplies data.
\<close>

definition block_without_chassis :: string where
  "block_without_chassis = ''System Name: R1'' @ [NL] @ ''Port Id: 1/1/2'' @ [NL]"

definition fdb_records :: "field_record list" where
  "fdb_records = [
     [(''port'', Some ''1/1/1/1''), (''vlan-id'', Some ''100''), (''mac'', Some ''00:00:00:00:00:aa'')],
     [(''port'', Some ''1/1/1/1''), (''vlan-id'', Some ''200''), (''mac'', Some ''00:00:00:00:00:bb'')],
     [(''port'', Some ''1/1/1/1''), (''vlan-id'', Some ''100''), (''mac'', Some ''00:00:00:00:00:aa'')]]"

definition isam_without_description :: elem where
  "isam_without_description = Elem ''runtime-data'' [] None [
     Elem ''hierarchy'' [(''name'', ''isam'')] None [
       Elem ''info'' [(''name'', ''contact-person'')] (Some ''noc'') []]]"

definition shelf_tree :: elem where
  "shelf_tree = Elem ''runtime-data'' [] None [
     Elem ''hierarchy'' [(''name'', ''shelf'')] None [
       Elem ''info'' [(''name'', ''serial-no'')] (Some ''SN1'') [],
       Elem ''info'' [(''name'', ''variant'')] (Some ''FX-8'') []]]"

definition bare_tree :: elem where
  "bare_tree = Elem ''runtime-data'' [] None []"

text \<open>
  Parsed replies for \<open>get_vlans\<close>: no VLAN names, and one instance of the tagging command
  for VLAN 100, once with the transmit mode \<open>tagged\<close> and once with \<open>untagged\<close>.
\<close>

definition tagging_tree :: "string \<Rightarrow> elem" where
  "tagging_tree mode = Elem ''runtime-data'' [] None [
     Elem ''instance'' [] None [
       Elem ''res-id'' [(''name'', ''vlan-id'')] (Some ''100'') [],
       Elem ''res-id'' [(''name'', ''vlan-port'')] (Some ''vlan-port:1/1/1/1/1/1/1:100'') [],
       Elem ''info'' [(''name'', ''transmit-mode'')] (Some mode) []]]"

definition names_tree :: elem where
  "names_tree = Elem ''runtime-data'' [] None [
     Elem ''instance'' [] None [
       Elem ''res-id'' [(''name'', ''id'')] (Some ''100'') [],
       Elem ''info'' [(''name'', ''name'')] (Some ''DATA'') []]]"

text \<open>
  What \<open>get_vlans\<close> reads from one instance: the integer in a field, and whether the
  transmit mode lets the port be listed.
\<close>

definition vlan_id_of :: "string \<Rightarrow> elem \<Rightarrow> error + int" where
  "vlan_id_of field elem =
     and_then (convert_xml_elem_to_dict elem) (\<lambda>dummy_data.
     and_then (dict_get dummy_data field) py_int_opt)"

definition listed :: "elem \<Rightarrow> error + bool" where
  "listed elem =
     and_then (convert_xml_elem_to_dict elem) (\<lambda>dummy_data.
     and_then (dict_get dummy_data ''transmit-mode'') tagged_or_untagged)"

section \<open>Properties of the matcher and of the escape filter\<close>

lemma rep_split:
  "(p', r') \<in> set (rep da a n pre rest) \<Longrightarrow> \<exists>u. rest = u @ r' \<and> p' = rev u @ pre"
proof (induction rest arbitrary: n pre)
  case Nil
  then show ?case by (simp split: if_splits)
next
  case (Cons c cs)
  from Cons.prems consider
      (more) "atom_ok da a c" "(p', r') \<in> set (rep da a (n - 1) (c # pre) cs)"
    | (stop) "p' = pre" "r' = c # cs"
    by (auto split: if_splits)
  then show ?case
  proof cases
    case more
    from Cons.IH[OF more(2)] obtain u where "cs = u @ r'" "p' = rev u @ c # pre" by blast
    then have "c # cs = (c # u) @ r' \<and> p' = rev (c # u) @ pre" by simp
    then show ?thesis by blast
  next
    case stop
    then show ?thesis by simp
  qed
qed

lemma step_split:
  "(p', r', g') \<in> set (step f r (pre, rest, g)) \<Longrightarrow> \<exists>u. rest = u @ r' \<and> p' = rev u @ pre"
proof (induction r arbitrary: pre rest g p' r' g')
  case Eps
  then show ?case by simp
next
  case (Atom a)
  then show ?case by (auto split: list.splits if_splits)
next
  case (Str w)
  then have "take (length w) rest = w" "r' = drop (length w) rest" "p' = rev w @ pre"
    by (auto split: if_splits)
  then have "rest = w @ r' \<and> p' = rev w @ pre"
    by (metis append_take_drop_id)
  then show ?case by blast
next
  case (Seq r1 r2)
  from Seq.prems obtain pm rm gm where
    m1: "(pm, rm, gm) \<in> set (step f r1 (pre, rest, g))" and
    m2: "(p', r', g') \<in> set (step f r2 (pm, rm, gm))"
    by auto
  from Seq.IH(1)[OF m1] obtain u where u: "rest = u @ rm" "pm = rev u @ pre" by blast
  from Seq.IH(2)[OF m2] obtain v where v: "rm = v @ r'" "p' = rev v @ pm" by blast
  from u v have "rest = (u @ v) @ r' \<and> p' = rev (u @ v) @ pre" by simp
  then show ?case by blast
next
  case (Alt r1 r2)
  then show ?case by auto
next
  case (Rep n a)
  then show ?case by (auto dest: rep_split)
next
  case Bol
  then show ?case by (auto split: if_splits)
next
  case Eol
  then show ?case by (auto split: if_splits)
next
  case (Grp i r)
  then show ?case by auto
next
  case (Ahead r)
  then show ?case by (auto split: if_splits)
next
  case (NotAhead r)
  then show ?case by (auto split: if_splits)
next
  case (Behind n r)
  then show ?case by (auto split: if_splits)
qed

lemma step_length: "(p', r', g') \<in> set (step f r (pre, rest, g)) \<Longrightarrow> length r' \<le> length rest"
  by (drule step_split) auto

lemma step_hd_split:
  "step f r (pre, rest, g) = (p', r', g') # sts \<Longrightarrow> \<exists>u. rest = u @ r' \<and> p' = rev u @ pre"
  by (rule step_split[of p' r' g' f r pre rest g]) simp

lemma sub_from_subseq: "subseq (sub_from f r pre s) s"
proof (induction f r pre s rule: sub_from.induct)
  case (1 f r pre)
  then show ?case by simp
next
  case (2 f r pre c cs)
  show ?case
  proof (cases "step f r (pre, c # cs, [])")
    case Nil
    from 2(1)[OF Nil] Nil show ?thesis by simp
  next
    case (Cons st sts)
    then obtain p' r' g where hd: "step f r (pre, c # cs, []) = (p', r', g) # sts"
      by (cases st) auto
    from step_hd_split[OF hd] obtain u where u: "c # cs = u @ r'" by blast
    show ?thesis
    proof (cases "length r' < length (c # cs)")
      case True
      from 2(2)[OF hd refl refl True]
      have "subseq (sub_from f r p' r') r'" .
      then have "subseq (sub_from f r p' r') (u @ r')" by (rule list_emb_append2)
      then have "subseq (sub_from f r p' r') (c # cs)" using u by simp
      moreover have "sub_from f r pre (c # cs) = sub_from f r p' r'"
        using hd True by simp
      ultimately show ?thesis by simp
    next
      case False
      from 2(3)[OF hd refl refl False]
      have "subseq (sub_from f r (c # pre) cs) cs" .
      moreover have "sub_from f r pre (c # cs) = c # sub_from f r (c # pre) cs"
        using hd False by simp
      ultimately show ?thesis by simp
    qed
  qed
qed

lemma sub_from_length: "length (sub_from f r pre s) \<le> length s"
  using sub_from_subseq by (rule list_emb_length)

lemma nonempty_triple: "xs \<noteq> [] \<Longrightarrow> \<exists>p r g. (p, r, g) \<in> set xs"
  by (cases xs) auto

lemma sub_from_no_match: "search_from f r pre s = None \<Longrightarrow> sub_from f r pre s = s"
proof (induction s arbitrary: pre)
  case Nil
  then show ?case by simp
next
  case (Cons c cs)
  then show ?case by (cases "step f r (pre, c # cs, [])") auto
qed

lemma sub_from_shrinks:
  assumes "\<forall>pre rest g p' r' g'.
      (p', r', g') \<in> set (step f r (pre, rest, g)) \<longrightarrow> length r' < length rest"
    and "search_from f r pre s \<noteq> None"
  shows "length (sub_from f r pre s) < length s"
proof -
  have consuming: "length r' < length rest"
    if "(p', r', g') \<in> set (step f r (pre, rest, g))" for pre rest g p' r' g'
    using assms(1) that by blast
  from assms(2) show ?thesis
  proof (induction s arbitrary: pre)
  case Nil
  then obtain p' r' g sts where "step f r (pre, [], []) = (p', r', g) # sts"
    by (cases "step f r (pre, [], [])") auto
  then have "(p', r', g) \<in> set (step f r (pre, [], []))" by simp
  from consuming[OF this] show ?case by simp
next
  case (Cons c cs)
  show ?case
  proof (cases "step f r (pre, c # cs, [])")
    case Nil
    with Cons.prems have "search_from f r (c # pre) cs \<noteq> None" by simp
    from Cons.IH[OF this] Nil show ?thesis by simp
  next
    case (Cons st sts)
    then obtain p' r' g where hd: "step f r (pre, c # cs, []) = (p', r', g) # sts"
      by (cases st) auto
    then have "(p', r', g) \<in> set (step f r (pre, c # cs, []))" by simp
    from consuming[OF this] have lt: "length r' < length (c # cs)" .
    have "length (sub_from f r p' r') \<le> length r'" by (rule sub_from_length)
    moreover have "sub_from f r pre (c # cs) = sub_from f r p' r'" using hd lt by simp
    ultimately show ?thesis using lt by simp
  qed
  qed
qed

lemma lead_group_step:
  "(p', r', g') \<in> set (step f lead_group (pre, rest, g)) \<Longrightarrow>
     rest = hd rest # r' \<and> rest \<noteq> [] \<and> lead_char (hd rest) \<and> p' = hd rest # pre \<and>
     g' = (1, [hd rest]) # g"
  by (cases rest) (auto simp: lead_group_def lead_char_def split: if_splits)

lemma lead_code_step:
  assumes "(p', r', g') \<in> set (step f (Seq lead_group c) (pre, rest, g))"
  shows "\<exists>x t. rest = x # t \<and> lead_char x \<and> length r' \<le> length t \<and>
           step f c (x # pre, t, (1, [x]) # g) \<noteq> []"
proof -
  from assms obtain pm rm gm where
    m1: "(pm, rm, gm) \<in> set (step f lead_group (pre, rest, g))" and
    m2: "(p', r', g') \<in> set (step f c (pm, rm, gm))"
    by auto
  from lead_group_step[OF m1] obtain x where
    x: "rest = x # rm" "lead_char x" "pm = x # pre" "gm = (1, [x]) # g"
    by blast
  from step_length[OF m2] have "length r' \<le> length rm" .
  moreover from m2 x have "step f c (x # pre, rm, (1, [x]) # g) \<noteq> []" by auto
  ultimately show ?thesis using x by blast
qed

lemma lead_code_consuming:
  "(p', r', g') \<in> set (step f (Seq lead_group c) (pre, rest, g)) \<Longrightarrow> length r' < length rest"
  by (drule lead_code_step) auto


lemmas code_defs =
  code_position_cursor_def code_show_cursor_def code_erase_line_def code_enable_scroll_def
  code_erase_start_line_def code_carriage_return_def code_disable_line_wrapping_def
  code_erase_line_end_def code_reset_mode_screen_options_def code_reset_graphics_mode_def
  code_erase_display_def code_graphics_mode_def code_graphics_mode1_def code_graphics_mode2_def
  code_graphics_mode3_def code_graphics_mode4_def code_get_cursor_position_def
  code_cursor_position_def code_erase_display_0_def code_attrs_off_def code_reverse_def
  code_cursor_left_def code_cursor_up_def code_cursor_down_def code_cursor_forward_def
  code_wrap_around_def code_bracketed_paste_mode_def

lemma re_sub_empty_subseq: "subseq (re_sub_empty r s) s"
  unfolding re_sub_empty_def by (rule sub_from_subseq)

lemma re_sub_empty_length: "length (re_sub_empty r s) \<le> length s"
  unfolding re_sub_empty_def by (rule sub_from_length)

lemma filter_with_Cons:
  "filter_with (c # cs) s = filter_with cs (re_sub_empty (Seq lead_group c) s)"
  by (simp add: filter_with_def)

lemma filter_with_subseq: "subseq (filter_with cs s) s"
proof (induction cs arbitrary: s)
  case Nil
  then show ?case by (simp add: filter_with_def)
next
  case (Cons c cs)
  have "subseq (filter_with cs (re_sub_empty (Seq lead_group c) s)) (re_sub_empty (Seq lead_group c) s)"
    by (rule Cons.IH)
  moreover have "subseq (re_sub_empty (Seq lead_group c) s) s" by (rule re_sub_empty_subseq)
  ultimately show ?case unfolding filter_with_Cons by (rule subseq_order.trans)
qed

lemma filter_with_length: "length (filter_with cs s) \<le> length s"
  using filter_with_subseq by (rule list_emb_length)

lemma not_occurs_sub: "\<not> occurs c s \<Longrightarrow> re_sub_empty (Seq lead_group c) s = s"
  by (simp add: occurs_def re_search_def re_sub_empty_def sub_from_no_match)

lemma occurs_sub:
  assumes "occurs c s"
  shows "length (re_sub_empty (Seq lead_group c) s) < length s"
proof -
  from assms have "search_from no_flags (Seq lead_group c) [] s \<noteq> None"
    by (simp add: occurs_def re_search_def)
  moreover have "\<forall>pre rest g p' r' g'.
      (p', r', g') \<in> set (step no_flags (Seq lead_group c) (pre, rest, g)) \<longrightarrow>
      length r' < length rest"
    using lead_code_consuming by blast
  ultimately have "length (sub_from no_flags (Seq lead_group c) [] s) < length s"
    by (rule sub_from_shrinks[rotated])
  then show ?thesis by (simp add: re_sub_empty_def)
qed

lemma filter_with_fixed: "list_all (\<lambda>c. \<not> occurs c s) cs \<Longrightarrow> filter_with cs s = s"
proof (induction cs)
  case Nil
  then show ?case by (simp add: filter_with_def)
next
  case (Cons c cs)
  then show ?case by (simp add: filter_with_Cons not_occurs_sub)
qed

lemma filter_with_shrinks:
  "list_ex (\<lambda>c. occurs c s) cs \<Longrightarrow> length (filter_with cs s) < length s"
proof (induction cs)
  case Nil
  then show ?case by simp
next
  case (Cons c cs)
  show ?case
  proof (cases "occurs c s")
    case True
    have "length (filter_with cs (re_sub_empty (Seq lead_group c) s))
            \<le> length (re_sub_empty (Seq lead_group c) s)"
      by (rule filter_with_length)
    with occurs_sub[OF True] show ?thesis by (simp add: filter_with_Cons)
  next
    case False
    with Cons.prems have "list_ex (\<lambda>c. occurs c s) cs" by simp
    from Cons.IH[OF this] False show ?thesis by (simp add: filter_with_Cons not_occurs_sub)
  qed
qed

lemma filter_with_fixed_iff: "filter_with cs s = s \<longleftrightarrow> list_all (\<lambda>c. \<not> occurs c s) cs"
proof
  assume eq: "filter_with cs s = s"
  show "list_all (\<lambda>c. \<not> occurs c s) cs"
  proof (rule ccontr)
    assume "\<not> list_all (\<lambda>c. \<not> occurs c s) cs"
    then have "list_ex (\<lambda>c. occurs c s) cs" by (simp add: list_all_iff list_ex_iff)
    from filter_with_shrinks[OF this] eq show False by simp
  qed
next
  assume "list_all (\<lambda>c. \<not> occurs c s) cs"
  then show "filter_with cs s = s" by (rule filter_with_fixed)
qed

lemma strip_is_filter_with: "strip_ansi_escape_codes s = filter_with code_set s"
  by (simp add: strip_ansi_escape_codes_def filter_with_def)

text \<open>
  Claim C4, as amended.  Applying the escape filter a second time changes nothing exactly
  when its first result contains no place where one of the filter's patterns (a leading
  character followed by a code of \<open>code_set\<close>) matches.  One application is a single
  pass for each code, so a deletion can bring a leading character next to a later
  sequence, which only another application removes.
\<close>

theorem strip_twice_iff:
  "strip_ansi_escape_codes (strip_ansi_escape_codes s) = strip_ansi_escape_codes s \<longleftrightarrow>
     list_all (\<lambda>c. \<not> occurs c (strip_ansi_escape_codes s)) code_set"
  unfolding strip_is_filter_with by (rule filter_with_fixed_iff)

theorem strip_twice_iff_witness:
  "strip_ansi_escape_codes (strip_ansi_escape_codes (''ab-'' @ ESC # ''[Kcd'')) =
     strip_ansi_escape_codes (''ab-'' @ ESC # ''[Kcd'')"
proof -
  have "strip_ansi_escape_codes (''ab-'' @ ESC # ''[Kcd'') = ''abcd''" by code_simp
  moreover have "list_all (\<lambda>c. \<not> occurs c ''abcd'') code_set" by code_simp
  ultimately show ?thesis using strip_twice_iff[of "''ab-'' @ ESC # ''[Kcd''"] by simp
qed

theorem strip_twice_counterexample:
  "strip_ansi_escape_codes (strip_ansi_escape_codes (''--'' @ ESC # ''[m'' @ ESC # ''[m'')) \<noteq>
     strip_ansi_escape_codes (''--'' @ ESC # ''[m'' @ ESC # ''[m'')"
  by code_simp

subsection \<open>The filter and the catalogue of sequences\<close>

lemma step_cat_Cons:
  "step f (cat (r # rs)) st = concat (map (step f (cat rs)) (step f r st))"
proof (cases rs)
  case Nil
  have "concat (map (step f Eps) (step f r st)) = step f r st"
    by (induction "step f r st") auto
  with Nil show ?thesis by simp
next
  case (Cons r' rs')
  then show ?thesis by simp
qed

lemma step_alts:
  "step f (alts rs) st = concat (map (\<lambda>r. step f r st) rs)"
proof (induction rs rule: alts.induct)
  case 1
  then show ?case by simp
next
  case (2 r)
  then show ?case by simp
next
  case (3 r v va)
  then show ?case by simp
qed

lemma rep_digit_rests:
  assumes "\<And>c cs. isdecimal c \<Longrightarrow> H (c # cs) = []"
  shows "concat (map H (map snd (rep da Digit n pre t))) =
     (if n \<le> length (takeWhile isdecimal t) then H (dropWhile isdecimal t) else [])"
proof (induction t arbitrary: n pre)
  case Nil
  then show ?case by simp
next
  case (Cons c cs)
  show ?case
  proof (cases "isdecimal c")
    case True
    have "n \<le> Suc (length (takeWhile isdecimal cs)) \<longleftrightarrow> n - 1 \<le> length (takeWhile isdecimal cs)"
      by arith
    with True Cons.IH[of "n - 1" "c # pre"] assms[OF True, of cs] show ?thesis by simp
  next
    case False
    then show ?thesis by simp
  qed
qed

lemma find_only_prefix:
  assumes "list_all (\<lambda>w. case w of [] \<Rightarrow> False | c # cs \<Rightarrow> True) ws" and "distinct (map hd ws)"
  shows "filter (\<lambda>w. take (length w) t = w) ws =
     (case find (\<lambda>w. take (length w) t = w) ws of None \<Rightarrow> [] | Some w \<Rightarrow> [w])"
  using assms
proof (induction ws)
  case Nil
  then show ?case by simp
next
  case (Cons w ws)
  show ?case
  proof (cases "take (length w) t = w")
    case True
    from Cons.prems obtain c cs where w: "w = c # cs" by (cases w) auto
    with True obtain t' where t: "t = c # t'" by (cases t) auto
    have "filter (\<lambda>v. take (length v) t = v) ws = []"
    proof (rule ccontr)
      assume "filter (\<lambda>v. take (length v) t = v) ws \<noteq> []"
      then obtain v where v: "v \<in> set ws" "take (length v) t = v"
        by (auto simp: filter_empty_conv)
      with Cons.prems(1) obtain d ds where "v = d # ds"
        by (cases v) (auto simp: list_all_iff)
      with v(2) t have "hd v = c" by auto
      with v(1) w Cons.prems(2) show False by force
    qed
    with True show ?thesis by simp
  next
    case False
    with Cons show ?thesis by simp
  qed
qed

lemma lit_then_items:
  assumes "\<And>pre t g. map (\<lambda>st. fst (snd st)) (step f (cat rs) (pre, t, g)) =
     (case seq_len sh t of None \<Rightarrow> [] | Some n \<Rightarrow> [drop n t])"
  shows "map (\<lambda>st. fst (snd st)) (step f (cat (Str w # rs)) (p, r, g)) =
     (if take (length w) r = w
      then (case seq_len sh (drop (length w) r) of
              None \<Rightarrow> [] | Some n \<Rightarrow> [drop (length w + n) r])
      else [])"
  by (simp add: step_cat_Cons assms add.commute split: option.splits)

lemma step_items:
  "list_all plain sh \<Longrightarrow>
     map (\<lambda>st. fst (snd st)) (step f (cat (concat (map item_regexes sh))) (pre, t, g)) =
       (case seq_len sh t of None \<Rightarrow> [] | Some n \<Rightarrow> [drop n t])"
proof (induction sh arbitrary: pre t g)
  case Nil
  then show ?case by simp
next
  case (Cons i sh)
  then have pl: "plain i" and rest: "list_all plain sh" by simp_all
  let ?rs = "concat (map item_regexes sh)"
  note IH = Cons.IH[OF rest]
  show ?case
  proof (cases i)
    case (Lit w)
    with lit_then_items[of f ?rs sh w pre t g, OF IH] show ?thesis
      by (simp split: option.splits)
  next
    case (Run n w)
    with pl obtain c0 w' where w: "w = c0 # w'" "\<not> isdecimal c0"
      by (cases w) (auto split: if_splits)
    let ?H = "\<lambda>r. if take (length w) r = w
      then (case seq_len sh (drop (length w) r) of
              None \<Rightarrow> [] | Some n \<Rightarrow> [drop (length w + n) r])
      else []"
    have H0: "?H (c # cs) = []" if "isdecimal c" for c cs
      using that w by auto
    have "map (\<lambda>st. fst (snd st)) (step f (cat (Rep n Digit # Str w # ?rs)) (pre, t, g)) =
        concat (map ?H (map snd (rep (dotall f) Digit n pre t)))"
      unfolding step_cat_Cons[of f "Rep n Digit"]
      by (simp add: map_concat comp_def split_beta lit_then_items[OF IH] del: cat.simps)
    also have "\<dots> = (if n \<le> length (takeWhile isdecimal t)
        then ?H (dropWhile isdecimal t) else [])"
      by (rule rep_digit_rests) (rule H0)
    finally show ?thesis using Run
      by (simp add: dropWhile_eq_drop Let_def ac_simps split: option.splits)
  next
    case One
    with IH show ?thesis
      by (cases t) (simp_all add: step_cat_Cons split: option.splits)
  next
    case Oct
    with IH show ?thesis
      by (cases t) (auto simp: step_cat_Cons split: option.splits)
  next
    case (Choice ws)
    with pl have ws: "list_all (\<lambda>w. case w of [] \<Rightarrow> False | c # cs \<Rightarrow> True) ws"
      "distinct (map hd ws)" by simp_all
    have alt: "step f (alts (map Str ws)) (pre, t, g) =
        map (\<lambda>w. (rev w @ pre, drop (length w) t, g)) (filter (\<lambda>w. take (length w) t = w) ws)"
      unfolding step_alts by (induction ws) auto
    show ?thesis
    proof (cases "find (\<lambda>w. take (length w) t = w) ws")
      case None
      with find_only_prefix[OF ws, of t] alt Choice show ?thesis
        by (simp add: step_cat_Cons)
    next
      case (Some w)
      with find_only_prefix[OF ws, of t] alt Choice IH show ?thesis
        by (simp add: step_cat_Cons add.commute split: option.splits)
    qed
  qed
qed

lemma lead_group_step_eq:
  "lead_char p \<Longrightarrow> step f lead_group (pre, p # rest, g) = [(p # pre, rest, (1, [p]) # g)]"
  by (auto simp: lead_group_def lead_char_def isspace_def)

lemma lead_group_step_none:
  "\<not> lead_char p \<Longrightarrow> step f lead_group (pre, p # rest, g) = []"
  by (auto simp: lead_group_def lead_char_def)

lemma lead_code_step_at:
  "step f (Seq lead_group (code_of sh)) (pre, p # e # u, g) =
     (if lead_char p \<and> e = ESC
      then step f (cat (concat (map item_regexes sh))) (ESC # p # pre, u, (1, [p]) # g)
      else [])"
  by (cases "lead_char p")
     (simp_all add: lead_group_step_eq lead_group_step_none code_of_def esc_def del: cat.simps)

lemma lead_code_step_short:
  "step f (Seq lead_group (code_of sh)) (pre, [p], g) = []"
  by (cases "lead_char p")
     (simp_all add: lead_group_step_eq lead_group_step_none code_of_def esc_def del: cat.simps)

lemma singleton_rest:
  "map (\<lambda>st. fst (snd st)) xs = [r] \<Longrightarrow> \<exists>p' g'. xs = [(p', r, g')]"
  by (cases xs) auto

lemma sub_from_delete_sequences:
  "list_all plain sh \<Longrightarrow>
     sub_from f (Seq lead_group (code_of sh)) pre s = delete_sequences sh s"
proof (induction sh s arbitrary: pre rule: delete_sequences.induct)
  case (1 sh)
  then show ?case by simp
next
  case (2 sh p)
  have "sub_from f (Seq lead_group (code_of sh)) pre [p] = [p]"
    by (subst sub_from.simps(2)) (simp add: lead_code_step_short del: step.simps)
  then show ?case by simp
next
  case (3 sh p e u)
  let ?R = "Seq lead_group (code_of sh)"
  have keep: "sub_from f ?R pre (p # e # u) = p # sub_from f ?R (p # pre) (e # u)"
    if "step f ?R (pre, p # e # u, []) = []"
    using that by (subst sub_from.simps(2)) (simp del: step.simps sub_from.simps)
  show ?case
  proof (cases "lead_char p \<and> e = ESC")
    case False
    then have "step f ?R (pre, p # e # u, []) = []"
      by (auto simp add: lead_code_step_at simp del: step.simps)
    from keep[OF this] have "sub_from f ?R pre (p # e # u) = p # delete_sequences sh (e # u)"
      by (simp only: "3.IH"(3)[OF False "3.prems"])
    moreover from False have "delete_sequences sh (p # e # u) = p # delete_sequences sh (e # u)"
      by auto
    ultimately show ?thesis by (simp only:)
  next
    case True
    note items = step_items[OF "3.prems", of f "ESC # p # pre" u "[(1, [p])]"]
    from True have at: "step f ?R (pre, p # e # u, []) =
        step f (cat (concat (map item_regexes sh))) (ESC # p # pre, u, [(1, [p])])"
      by (simp add: lead_code_step_at del: step.simps)
    show ?thesis
    proof (cases "seq_len sh u")
      case None
      with items at have "step f ?R (pre, p # e # u, []) = []"
        by (simp del: step.simps)
      from keep[OF this] have "sub_from f ?R pre (p # e # u) = p # delete_sequences sh (e # u)"
        by (simp only: "3.IH"(1)[OF True None "3.prems"])
      moreover from True None
      have "delete_sequences sh (p # e # u) = p # delete_sequences sh (e # u)"
        by simp
      ultimately show ?thesis by (simp only:)
    next
      case (Some n)
      with items have "map (\<lambda>st. fst (snd st))
          (step f (cat (concat (map item_regexes sh))) (ESC # p # pre, u, [(1, [p])])) = [drop n u]"
        by simp
      from singleton_rest[OF this] at obtain p' g' where
        st: "step f ?R (pre, p # e # u, []) = [(p', drop n u, g')]"
        by (auto simp del: step.simps)
      have "sub_from f ?R pre (p # e # u) = sub_from f ?R p' (drop n u)"
        using st by (subst sub_from.simps(2)) (auto simp del: step.simps sub_from.simps)
      then have "sub_from f ?R pre (p # e # u) = delete_sequences sh (drop n u)"
        by (simp only: "3.IH"(2)[OF True Some "3.prems"])
      moreover from True Some
      have "delete_sequences sh (p # e # u) = delete_sequences sh (drop n u)"
        by simp
      ultimately show ?thesis by (simp only:)
    qed
  qed
qed

lemma code_set_catalog: "code_set = map code_of catalog"
  by (simp add: code_set_def code_defs catalog_def code_of_def)

lemma catalog_plain: "list_all (list_all plain) catalog"
  by (simp add: catalog_def isdecimal_def)

lemma filter_with_catalog:
  "list_all (list_all plain) shs \<Longrightarrow>
     filter_with (map code_of shs) s = foldl (\<lambda>output sh. delete_sequences sh output) s shs"
proof (induction shs arbitrary: s)
  case Nil
  then show ?case by (simp add: filter_with_def)
next
  case (Cons sh shs)
  then show ?case
    by (simp add: filter_with_Cons re_sub_empty_def sub_from_delete_sequences)
qed

lemma strip_delete_catalogued: "strip_ansi_escape_codes s = delete_catalogued s"
  by (simp add: strip_is_filter_with code_set_catalog filter_with_catalog catalog_plain
      delete_catalogued_def)

text \<open>
  Claim C5, as amended.  The filter only deletes characters: its result is a subsequence
  of its input.  For a text in which each \<open>ESC\<close> directly follows one of the leading
  characters \<open>-\<close>, backslash, \<open>/\<close>, \<open>|\<close> or whitespace, the result is the text with, for
  each code of the catalogue in turn, the occurrences of a leading character followed by
  the sequence of the code deleted from the left, the leading character with them, and
  every other character kept; so a sequence outside the catalogue stays.  What becomes of
  an \<open>ESC\<close> that follows another character is not stated here.
\<close>

theorem strip_deletes_guarded_sequences:
  "subseq (strip_ansi_escape_codes s) s \<and>
   (lead_guarded s \<longrightarrow> strip_ansi_escape_codes s = delete_catalogued s)"
proof (intro conjI impI)
  show "subseq (strip_ansi_escape_codes s) s"
    unfolding strip_is_filter_with by (rule filter_with_subseq)
  show "strip_ansi_escape_codes s = delete_catalogued s"
    by (rule strip_delete_catalogued)
qed

theorem strip_deletes_guarded_sequences_witness:
  "strip_ansi_escape_codes
     (''ab-'' @ ESC # ''[K|'' @ ESC # ''[24;80Hc '' @ ESC # ''[5nd'') =
   ''abc '' @ ESC # ''[5nd''"
proof -
  let ?s = "''ab-'' @ ESC # ''[K|'' @ ESC # ''[24;80Hc '' @ ESC # ''[5nd''"
  have "lead_guarded ?s" by code_simp
  moreover have "delete_catalogued ?s = ''abc '' @ ESC # ''[5nd''" by code_simp
  ultimately show ?thesis using strip_deletes_guarded_sequences[of ?s] by simp
qed

theorem strip_lead_counterexample:
  "strip_ansi_escape_codes (''ab-'' @ ESC # ''[Kcd'') = ''abcd''"
  by code_simp

section \<open>Dictionaries\<close>

lemma dict_get_Inr_iff: "dict_get d k = Inr v \<longleftrightarrow> map_of d k = Some v"
  by (simp add: dict_get_def split: option.splits)

lemma dict_get_Inl_iff: "dict_get d k = Inl err \<longleftrightarrow> map_of d k = None \<and> err = KeyError"
  by (auto simp: dict_get_def split: option.splits)

lemma dict_get_Some [simp]: "map_of d k = Some v \<Longrightarrow> dict_get d k = Inr v"
  by (simp add: dict_get_def)

lemma dict_get_None [simp]: "map_of d k = None \<Longrightarrow> dict_get d k = Inl KeyError"
  by (simp add: dict_get_def)

lemma dict_has_iff [simp]: "dict_has d k \<longleftrightarrow> map_of d k \<noteq> None"
  by (simp add: dict_has_def split: option.splits)

lemma map_of_dict_set [simp]: "map_of (dict_set d k v) = (map_of d)(k \<mapsto> v)"
  by (simp add: dict_set_def update_conv')

lemma distinct_dict_set: "distinct (map fst d) \<Longrightarrow> distinct (map fst (dict_set d k v))"
  by (simp add: dict_set_def distinct_update)

lemma and_then_Inr [simp]: "and_then r f = Inr v \<longleftrightarrow> (\<exists>x. r = Inr x \<and> f x = Inr v)"
  by (cases r) (simp_all add: and_then_def)

lemma and_then_simps [simp]:
  "and_then (Inl err) f = Inl err"
  "and_then (Inr x) f = f x"
  by (simp_all add: and_then_def)

lemma map_of_rev_last:
  "x \<in> set xs \<Longrightarrow>
     map_of (rev (map (\<lambda>e. (f e, g e)) xs)) (f x) = Some (g (last (filter (\<lambda>y. f y = f x) xs)))"
proof (induction xs rule: rev_induct)
  case Nil
  then show ?case by simp
next
  case (snoc y ys)
  show ?case
  proof (cases "f y = f x")
    case True
    then show ?thesis by simp
  next
    case False
    with snoc.prems have "x \<in> set ys" by auto
    from snoc.IH[OF this] False show ?thesis by simp
  qed
qed

lemma distinct_last_filter:
  assumes "distinct (map f xs)" and "x \<in> set xs"
  shows "last (filter (\<lambda>y. f y = f x) xs) = x"
proof -
  let ?ys = "filter (\<lambda>y. f y = f x) xs"
  from assms(2) have "?ys \<noteq> []" by (auto simp: filter_empty_conv)
  then have "last ?ys \<in> set ?ys" by (rule last_in_set)
  then have "last ?ys \<in> set xs" "f (last ?ys) = f x" by auto
  with assms show ?thesis by (auto simp: distinct_map dest: inj_onD)
qed

section \<open>Keying records\<close>

lemma list_to_dict_loop_lookup:
  "map_of (list_to_dict_loop data key d) k =
     (case filter (\<lambda>record. map_of record key = Some k) data of
        [] \<Rightarrow> map_of d k
      | rs \<Rightarrow> Some (last rs))"
proof (induction data arbitrary: d)
  case Nil
  then show ?case by simp
next
  case (Cons r rest)
  show ?case
  proof (cases "map_of r key")
    case None
    with Cons.IH[of d] show ?thesis by simp
  next
    case (Some v)
    with Cons.IH[of "dict_set d v r"] show ?thesis
      by (auto split: list.splits)
  qed
qed

lemma list_to_dict_loop_distinct:
  "distinct (map fst d) \<Longrightarrow> distinct (map fst (list_to_dict_loop data key d))"
proof (induction data arbitrary: d)
  case Nil
  then show ?case by simp
next
  case (Cons r rest)
  then show ?case
    by (cases "map_of r key") (auto intro: distinct_dict_set)
qed

text \<open>
  Claim C8.  In the dictionary that \<open>_convert_list_to_dict\<close> returns, a key \<open>k\<close> is bound
  exactly when some record of the list holds \<open>k\<close> in the key field, and then to the last
  such record; a record without the key field is bound to no key, and the function
  returns for every list (it has no error result).  So every entry's record holds the
  entry's key in the key field and comes from the list, and no key occurs twice.
\<close>

theorem convert_list_to_dict_last_wins:
  "map_of (convert_list_to_dict data key) k =
     (case filter (\<lambda>record. map_of record key = Some k) data of
        [] \<Rightarrow> None
      | rs \<Rightarrow> Some (last rs)) \<and>
   (map_of (convert_list_to_dict data key) k = Some record \<longrightarrow>
      map_of record key = Some k \<and> record \<in> set data) \<and>
   distinct (map fst (convert_list_to_dict data key))"
proof (intro conjI impI)
  show look: "map_of (convert_list_to_dict data key) k =
     (case filter (\<lambda>record. map_of record key = Some k) data of
        [] \<Rightarrow> None
      | rs \<Rightarrow> Some (last rs))"
    by (simp add: convert_list_to_dict_def list_to_dict_loop_lookup split: list.splits)
  show "distinct (map fst (convert_list_to_dict data key))"
    by (simp add: convert_list_to_dict_def list_to_dict_loop_distinct)
  assume bound: "map_of (convert_list_to_dict data key) k = Some record"
  let ?rs = "filter (\<lambda>record. map_of record key = Some k) data"
  from bound look have ne: "?rs \<noteq> []" and rec: "record = last ?rs"
    by (auto split: list.splits)
  from ne have "last ?rs \<in> set ?rs" by (rule last_in_set)
  with rec show "map_of record key = Some k" and "record \<in> set data" by auto
qed

theorem convert_list_to_dict_last_wins_witness:
  "map_of (convert_list_to_dict
      [[(''slot'', Some ''lt:1/1/1''), (''oper-status'', Some ''down'')],
       [(''oper-status'', Some ''up'')],
       [(''slot'', Some ''lt:1/1/1''), (''oper-status'', Some ''up'')]] ''slot'') (Some ''lt:1/1/1'') =
     Some [(''slot'', Some ''lt:1/1/1''), (''oper-status'', Some ''up'')]"
  using convert_list_to_dict_last_wins[of
      "[[(''slot'', Some ''lt:1/1/1''), (''oper-status'', Some ''down'')],
       [(''oper-status'', Some ''up'')],
       [(''slot'', Some ''lt:1/1/1''), (''oper-status'', Some ''up'')]]" "''slot''" "Some ''lt:1/1/1''"]
  by simp

section \<open>Flattening\<close>

lemma map_of_append_dict_set:
  "map_of (xs @ dict_set d k v) = map_of ((xs @ [(k, v)]) @ d)"
  by (rule ext) (simp add: map_add_def split: option.splits)

lemma has_name_attr: "has_name e \<Longrightarrow> map_of (attrib e) ''name'' = Some (name_attr e)"
  by (auto simp: has_name_def name_attr_def)

lemma no_name_attr: "\<not> has_name e \<Longrightarrow> map_of (attrib e) ''name'' = None"
  by (simp add: has_name_def)

lemma elem_to_dict_loop_ok:
  "list_all has_name (filter (\<lambda>e. tag e \<noteq> ''instance'') es) \<Longrightarrow>
     \<exists>d'. elem_to_dict_loop es d = Inr d' \<and>
       map_of d' = map_of (rev (map (\<lambda>e. (field_key e, elem_text e))
         (filter (\<lambda>e. tag e \<noteq> ''instance'') es)) @ d)"
proof (induction es arbitrary: d)
  case Nil
  then show ?case by simp
next
  case (Cons e es)
  show ?case
  proof (cases "tag e = ''instance''")
    case True
    with Cons.prems Cons.IH[of d] show ?thesis by simp
  next
    case False
    with Cons.prems have named: "has_name e"
      and rest: "list_all has_name (filter (\<lambda>e. tag e \<noteq> ''instance'') es)" by simp_all
    from Cons.IH[OF rest, of "dict_set d (field_key e) (elem_text e)"]
    obtain d' where d': "elem_to_dict_loop es (dict_set d (field_key e) (elem_text e)) = Inr d'"
      "map_of d' = map_of (rev (map (\<lambda>e. (field_key e, elem_text e))
         (filter (\<lambda>e. tag e \<noteq> ''instance'') es)) @ dict_set d (field_key e) (elem_text e))"
      by blast
    have "elem_to_dict_loop (e # es) d =
        elem_to_dict_loop es (dict_set d (field_key e) (elem_text e))"
      using False has_name_attr[OF named] by (simp add: field_key_def name_attr_def)
    with d' False show ?thesis by (simp add: map_of_append_dict_set)
  qed
qed

lemma elem_to_dict_loop_KeyError:
  "\<not> list_all has_name (filter (\<lambda>e. tag e \<noteq> ''instance'') es) \<Longrightarrow>
     elem_to_dict_loop es d = Inl KeyError"
proof (induction es arbitrary: d)
  case Nil
  then show ?case by simp
next
  case (Cons e es)
  show ?case
  proof (cases "tag e = ''instance''")
    case True
    with Cons show ?thesis by simp
  next
    case False
    show ?thesis
    proof (cases "has_name e")
      case True
      with False Cons.prems
      have "\<not> list_all has_name (filter (\<lambda>e. tag e \<noteq> ''instance'') es)" by simp
      from Cons.IH[OF this] False has_name_attr[OF True] show ?thesis by simp
    next
      case no: False
      with False no_name_attr[OF no] show ?thesis by simp
    qed
  qed
qed

lemma instance_fields_ok:
  "list_all has_name es \<Longrightarrow>
     \<exists>d'. instance_fields es d = Inr d' \<and>
       map_of d' = map_of (rev (map (\<lambda>e. (name_attr e, elem_text e)) es) @ d)"
proof (induction es arbitrary: d)
  case Nil
  then show ?case by simp
next
  case (Cons e es)
  then have named: "has_name e" and rest: "list_all has_name es" by simp_all
  from Cons.IH[OF rest, of "dict_set d (name_attr e) (elem_text e)"]
  obtain d' where d': "instance_fields es (dict_set d (name_attr e) (elem_text e)) = Inr d'"
    "map_of d' = map_of (rev (map (\<lambda>e. (name_attr e, elem_text e)) es) @
       dict_set d (name_attr e) (elem_text e))"
    by blast
  have "instance_fields (e # es) d = instance_fields es (dict_set d (name_attr e) (elem_text e))"
    using has_name_attr[OF named] by simp
  with d' show ?case by (simp add: map_of_append_dict_set)
qed

lemma flattened_lookup:
  assumes "map_of data = map_of (rev (map (\<lambda>e. (f e, elem_text e)) es) @ [])" and "e \<in> set es"
  shows "map_of data (f e) = Some (elem_text (last_with f es e))"
    and "distinct (map f es) \<Longrightarrow> map_of data (f e) = Some (elem_text e)"
proof -
  show look: "map_of data (f e) = Some (elem_text (last_with f es e))"
    using assms map_of_rev_last[of e es f elem_text] by (simp add: last_with_def)
  assume "distinct (map f es)"
  from distinct_last_filter[OF this assms(2)] look
  show "map_of data (f e) = Some (elem_text e)" by (simp add: last_with_def)
qed

text \<open>
  Claim C9, as amended.  When every flattenable element of a node carries the attribute
  \<open>name\<close>, \<open>_convert_xml_elem_to_dict\<close> returns a record in which the key made of an
  element's name (blanks replaced by underscores) is bound to the text of the last
  flattenable element with that key, which is the element's own text when the keys are
  pairwise distinct; an element without text is bound to \<open>None\<close>, its key being present.
  When a flattenable element has no such attribute, the function raises \<open>KeyError\<close>.  The
  loop inside \<open>convert_xml_to_list\<close> does the same for the children of an instance, with
  the name as it is written.
\<close>

theorem flatten_then_lookup:
  "(list_all has_name (flattenable elem) \<longrightarrow>
      (\<exists>data. convert_xml_elem_to_dict elem = Inr data \<and>
         (\<forall>e\<in>set (flattenable elem).
            map_of data (field_key e) =
              Some (elem_text (last_with field_key (flattenable elem) e)) \<and>
            (distinct (map field_key (flattenable elem)) \<longrightarrow>
               map_of data (field_key e) = Some (elem_text e))))) \<and>
   (\<not> list_all has_name (flattenable elem) \<longrightarrow> convert_xml_elem_to_dict elem = Inl KeyError) \<and>
   (list_all has_name (children inst) \<longrightarrow>
      (\<exists>data. instance_fields (children inst) [] = Inr data \<and>
         (\<forall>e\<in>set (children inst).
            map_of data (name_attr e) =
              Some (elem_text (last_with name_attr (children inst) e)) \<and>
            (distinct (map name_attr (children inst)) \<longrightarrow>
               map_of data (name_attr e) = Some (elem_text e)))))"
proof (intro conjI impI)
  assume "list_all has_name (flattenable elem)"
  then obtain data where data: "convert_xml_elem_to_dict elem = Inr data"
    "map_of data = map_of (rev (map (\<lambda>e. (field_key e, elem_text e)) (flattenable elem)) @ [])"
    using elem_to_dict_loop_ok[of "iter elem" "[]"]
    by (auto simp: flattenable_def convert_xml_elem_to_dict_def)
  show "\<exists>data. convert_xml_elem_to_dict elem = Inr data \<and>
         (\<forall>e\<in>set (flattenable elem).
            map_of data (field_key e) =
              Some (elem_text (last_with field_key (flattenable elem) e)) \<and>
            (distinct (map field_key (flattenable elem)) \<longrightarrow>
               map_of data (field_key e) = Some (elem_text e)))"
    using data(1) flattened_lookup[OF data(2)] by blast
next
  assume "\<not> list_all has_name (flattenable elem)"
  then show "convert_xml_elem_to_dict elem = Inl KeyError"
    using elem_to_dict_loop_KeyError[of "iter elem" "[]"]
    by (simp add: flattenable_def convert_xml_elem_to_dict_def)
next
  assume "list_all has_name (children inst)"
  from instance_fields_ok[OF this, of "[]"]
  obtain data where data: "instance_fields (children inst) [] = Inr data"
    "map_of data = map_of (rev (map (\<lambda>e. (name_attr e, elem_text e)) (children inst)) @ [])"
    by blast
  show "\<exists>data. instance_fields (children inst) [] = Inr data \<and>
         (\<forall>e\<in>set (children inst).
            map_of data (name_attr e) =
              Some (elem_text (last_with name_attr (children inst) e)) \<and>
            (distinct (map name_attr (children inst)) \<longrightarrow>
               map_of data (name_attr e) = Some (elem_text e)))"
    using data(1) flattened_lookup[OF data(2)] by blast
qed

theorem flatten_then_lookup_witness:
  "\<exists>data. convert_xml_elem_to_dict sample_instance = Inr data \<and>
     map_of data ''association_type'' = Some (Some ''static'') \<and>
     map_of data ''cfgfile1-ver-act'' = Some None"
proof -
  let ?c2 = "Elem ''info'' [(''name'', ''association type'')] (Some ''static'') []"
  let ?c3 = "Elem ''info'' [(''name'', ''cfgfile1-ver-act'')] None []"
  have fl: "flattenable sample_instance =
      [Elem ''res-id'' [(''name'', ''vlan-id'')] (Some ''2940'') [], ?c2, ?c3]"
    by (simp add: flattenable_def sample_instance_def)
  have named: "list_all has_name (flattenable sample_instance)"
    by (simp add: fl has_name_def)
  have dis: "distinct (map field_key (flattenable sample_instance))"
    by (simp add: fl field_key_def name_attr_def replace_char_def)
  from flatten_then_lookup[of sample_instance sample_instance] named dis
  obtain data where data: "convert_xml_elem_to_dict sample_instance = Inr data"
    "\<forall>e\<in>set (flattenable sample_instance). map_of data (field_key e) = Some (elem_text e)"
    by blast
  from data(2) have "map_of data (field_key ?c2) = Some (elem_text ?c2)"
    and "map_of data (field_key ?c3) = Some (elem_text ?c3)"
    by (simp_all add: fl)
  then have "map_of data ''association_type'' = Some (Some ''static'')"
    and "map_of data ''cfgfile1-ver-act'' = Some None"
    by (simp_all add: field_key_def name_attr_def replace_char_def)
  with data(1) show ?thesis by blast
qed

theorem flatten_then_lookup_counterexample:
  "convert_xml_elem_to_dict
      (Elem ''info'' [(''name'', ''association type'')] (Some ''static'') []) =
     Inr [(''association_type'', Some ''static'')] \<and>
   dict_get [(''association_type'', Some ''static'')] ''association type'' = Inl KeyError \<and>
   convert_xml_elem_to_dict
      (Elem ''instance'' [] None [
         Elem ''info'' [(''name'', ''sernum'')] (Some ''ALCL:1'') [],
         Elem ''info'' [(''name'', ''sernum'')] (Some ''ALCL:2'') []]) =
     Inr [(''sernum'', Some ''ALCL:2'')]"
  by code_simp

section \<open>Listing the records of a document\<close>

lemma instances_loop_ok:
  "list_all (\<lambda>i. list_all has_name (children i)) insts \<Longrightarrow>
     \<exists>records. instances_loop insts = Inr records \<and>
       list_all2 (\<lambda>record inst.
           fst ` set record = name_attr ` set (children inst) \<and>
           (\<forall>e\<in>set (children inst).
              map_of record (name_attr e) =
                Some (elem_text (last_with name_attr (children inst) e))))
         records insts"
proof (induction insts)
  case Nil
  then show ?case by simp
next
  case (Cons i insts)
  then have named: "list_all has_name (children i)"
    and rest: "list_all (\<lambda>i. list_all has_name (children i)) insts" by simp_all
  from instance_fields_ok[OF named, of "[]"]
  obtain data where data: "instance_fields (children i) [] = Inr data"
    "map_of data = map_of (rev (map (\<lambda>e. (name_attr e, elem_text e)) (children i)) @ [])"
    by blast
  from data(2) have "dom (map_of data) =
      dom (map_of (rev (map (\<lambda>e. (name_attr e, elem_text e)) (children i))))" by simp
  then have keys: "fst ` set data = name_attr ` set (children i)"
    by (simp add: dom_map_of_conv_image_fst image_image)
  from Cons.IH[OF rest] obtain records where records: "instances_loop insts = Inr records"
    "list_all2 (\<lambda>record inst.
           fst ` set record = name_attr ` set (children inst) \<and>
           (\<forall>e\<in>set (children inst).
              map_of record (name_attr e) =
                Some (elem_text (last_with name_attr (children inst) e))))
         records insts"
    by blast
  have "instances_loop (i # insts) = Inr (data # records)"
    using data(1) records(1) by simp
  moreover have "\<forall>e\<in>set (children i).
      map_of data (name_attr e) = Some (elem_text (last_with name_attr (children i) e))"
    using flattened_lookup(1)[OF data(2)] by blast
  ultimately show ?case using keys records(2) by simp
qed

text \<open>
  Claim C7, as amended.  For a non-empty reply whose sanitised text parses to a tree in
  which every child of an instance below the root carries the attribute \<open>name\<close>,
  \<open>convert_xml_to_list\<close> returns one record for each instance that is a child of the root,
  in document order; the keys of a record are the names of the children of its instance,
  each bound to the text of the last child with that name.  With no instance among the
  children of the root the list is empty.  Instances deeper in the tree are not listed.
\<close>

theorem convert_xml_to_list_records:
  assumes "xml_data \<noteq> []"
    and "fromstring (sanitize xml_data) = Inr root"
    and "list_all (\<lambda>i. list_all has_name (children i)) (findall_child ''instance'' root)"
  shows "\<exists>records. convert_xml_to_list fromstring xml_data = Inr (Some records) \<and>
     length records = length (findall_child ''instance'' root) \<and>
     list_all2 (\<lambda>record inst.
         fst ` set record = name_attr ` set (children inst) \<and>
         (\<forall>e\<in>set (children inst).
            map_of record (name_attr e) =
              Some (elem_text (last_with name_attr (children inst) e))))
       records (findall_child ''instance'' root)"
proof -
  from instances_loop_ok[OF assms(3)] obtain records where
    records: "instances_loop (findall_child ''instance'' root) = Inr records"
    "list_all2 (\<lambda>record inst.
         fst ` set record = name_attr ` set (children inst) \<and>
         (\<forall>e\<in>set (children inst).
            map_of record (name_attr e) =
              Some (elem_text (last_with name_attr (children inst) e))))
       records (findall_child ''instance'' root)"
    by blast
  from records(2) have "length records = length (findall_child ''instance'' root)"
    by (rule list_all2_lengthD)
  moreover have "convert_xml_to_list fromstring xml_data = Inr (Some records)"
    using assms(1,2) records(1) by (simp add: convert_xml_to_list_def instances_of_root_def)
  ultimately show ?thesis using records(2) by blast
qed

lemma sanitize_slot_document: "sanitize slot_document = slot_text"
  by code_simp

lemma sanitize_nested_document: "sanitize nested_document = nested_text"
  by code_simp

theorem convert_xml_to_list_records_witness:
  "\<exists>records. convert_xml_to_list sample_fromstring slot_document = Inr (Some records) \<and>
     length records = 2"
proof -
  have ne: "slot_document \<noteq> []" by (simp add: slot_document_def)
  have parsed: "sample_fromstring (sanitize slot_document) = Inr slot_tree"
    by (simp add: sanitize_slot_document sample_fromstring_def)
  have insts: "findall_child ''instance'' slot_tree = children slot_tree"
    by (simp add: findall_child_def slot_tree_def)
  have named: "list_all (\<lambda>i. list_all has_name (children i)) (findall_child ''instance'' slot_tree)"
    by (simp add: insts) (simp add: slot_tree_def has_name_def)
  have "length (findall_child ''instance'' slot_tree) = 2"
    by (simp add: insts) (simp add: slot_tree_def)
  with convert_xml_to_list_records[of slot_document sample_fromstring slot_tree] ne parsed named
  show ?thesis by auto
qed

theorem convert_xml_to_list_depth_counterexample:
  "convert_xml_to_list sample_fromstring nested_document = Inr (Some []) \<and>
   length (findall_desc ''instance'' nested_tree) = 1"
  by code_simp

section \<open>The bridge-port table\<close>

text \<open>
  Claim C3.  The claim is that no pair of VLAN and MAC address is stored twice under one
  port.  The inner loop of \<open>get_vlan_bridge_port_fdb\<close> adds the new pair as soon as it
  meets a stored pair with another MAC address, so a pair that is already stored is added
  again whenever the port also holds a pair with a different MAC address: on the three
  records of \<open>fdb_records\<close> the port ends with the first pair twice.
\<close>

theorem fdb_loop_stores_pair_twice:
  "fdb_loop fdb_records [] =
     Inr [(Some ''1/1/1/1'',
       [(Some ''100'', Some ''00:00:00:00:00:aa''),
        (Some ''200'', Some ''00:00:00:00:00:bb''),
        (Some ''100'', Some ''00:00:00:00:00:aa'')])]"
  by code_simp

section \<open>Device facts\<close>

text \<open>
  Claim C6.  The claim is that every fact no source supplied is returned with its
  default.  \<open>get_facts\<close> writes the defaults inside the test for \<open>description\<close>, so when the
  \<open>isam\<close> hierarchy has no \<open>description\<close> the result holds only what the other sources
  set: here the model, the serial number and the interface list, and none of
  \<open>uptime\<close>, \<open>os_version\<close>, \<open>fqdn\<close>, \<open>vendor\<close>.
\<close>

theorem get_facts_without_description:
  "get_facts_trees isam_without_description bare_tree [] shelf_tree bare_tree (Some ''7360 ISAM'') =
     Inr [(''model'', FStr ''7360 ISAM (FX-8)''), (''serial_number'', FStr ''SN1''),
          (''interface_list'', FList [])]"
  by code_simp

section \<open>LLDP neighbours\<close>

lemma line_literal_step:
  "step f (Seq Bol (Seq (Str w) r)) (pre, t, g) \<noteq> [] \<Longrightarrow> take (length w) t = w"
  by (auto split: if_splits)

lemma search_needs_literal:
  "\<not> contains w s \<Longrightarrow> search_from f (Seq Bol (Seq (Str w) r)) pre s = None"
proof (induction s arbitrary: pre)
  case Nil
  then have "take (length w) [] \<noteq> w" by auto
  with line_literal_step[of f w r pre "[]" "[]"]
  have "step f (Seq Bol (Seq (Str w) r)) (pre, [], []) = []" by blast
  then show ?case by (simp del: step.simps)
next
  case (Cons c cs)
  then have "take (length w) (c # cs) \<noteq> w" and rest: "\<not> contains w cs"
    by (simp_all split: if_splits)
  with line_literal_step[of f w r pre "c # cs" "[]"]
  have "step f (Seq Bol (Seq (Str w) r)) (pre, c # cs, []) = []" by blast
  with Cons.IH[OF rest] show ?case by (simp del: step.simps)
qed

text \<open>
  Claim C1.  The claim is that a block with a system name and no chassis id gives an
  entry whose chassis id keeps its default.  \<open>get_lldp_neighbors_detail\<close> sets the
  defaults and then calls \<open>group(1)\<close> on the result of each search without a test, so for
  every block in which a system name is found and the words \<open>Chassis Id\<close> do not occur the
  loop body raises \<open>AttributeError\<close>, and no entry is returned.
\<close>

theorem lldp_detail_entry_without_chassis:
  assumes "re_findall REMOTE_HOST_REGEX lldp_data flags_M \<noteq> []"
    and "\<not> contains ''Chassis Id'' lldp_data"
  shows "lldp_detail_entry port lldp_data = Inl AttributeError"
proof -
  have "re_search REMOTE_CHASSIS_REGEX lldp_data flags_M = None"
    using search_needs_literal[OF assms(2)]
    by (simp add: REMOTE_CHASSIS_REGEX_def re_search_def del: step.simps)
  then have "group1 (re_search REMOTE_CHASSIS_REGEX lldp_data flags_M) = Inl AttributeError"
    by (simp add: group1_def)
  with assms(1) show ?thesis
    by (simp add: lldp_detail_entry_def Let_def)
qed

theorem lldp_detail_entry_without_chassis_witness:
  "lldp_detail_entry ''1/1/1'' block_without_chassis = Inl AttributeError"
proof -
  have "re_findall REMOTE_HOST_REGEX block_without_chassis flags_M \<noteq> []" by code_simp
  moreover have "\<not> contains ''Chassis Id'' block_without_chassis" by code_simp
  ultimately show ?thesis by (rule lldp_detail_entry_without_chassis)
qed

section \<open>Empty replies and replies that do not parse\<close>

lemma keyed_reply_empty: "keyed_reply fromstring [] key message = Inr (NoData message)"
  by (simp add: keyed_reply_def)

lemma keyed_reply_parse_error:
  "data \<noteq> [] \<Longrightarrow> fromstring (sanitize data) = Inl err \<Longrightarrow>
     keyed_reply fromstring data key message = Inl err"
  by (simp add: keyed_reply_def convert_xml_to_list_def)

lemma keyed_reply_data:
  assumes "data \<noteq> []" and "fromstring (sanitize data) = Inr root"
    and "list_all (\<lambda>i. list_all has_name (children i)) (findall_child ''instance'' root)"
  shows "\<exists>records. keyed_reply fromstring data key message = Inr (Data records)"
proof -
  from instances_loop_ok[OF assms(3)] obtain records where
    "instances_loop (findall_child ''instance'' root) = Inr records" by blast
  with assms(1,2) show ?thesis
    by (simp add: keyed_reply_def convert_xml_to_list_def instances_of_root_def)
qed

lemma keyed_operations_shape:
  "(command, starred, operation) \<in> set keyed_operations \<Longrightarrow>
     \<exists>key. operation = (if starred then keyed_starred command key else keyed_plain command key)"
  unfolding keyed_operations_def
    get_equipment_ont_status_xpon_def get_equipment_ont_interfaces_def
    get_equipment_ont_status_pon_def get_vlan_residential_bridge_def
    get_unprovision_devices_def get_equipment_slot_def get_equipment_slot_detail_def
    get_equipment_ont_slot_def get_equipment_ont_optics_def get_pon_optics_def
    get_equipment_ont_sw_downloads_def get_vlan_fdb_board_def
    get_ethernet_ont_operational_data_def get_equipment_ont_sw_version_def
    get_equipment_transceiver_inventor_def get_equipment_diagnostics_sfp_def
    get_vlan_name_def get_equipment_temperature_def
  by (auto intro: exI)

lemma keyed_operation_reply:
  assumes "(command, starred, operation) \<in> set keyed_operations"
  shows "\<exists>key. operation fromstring dev hostname =
     keyed_reply fromstring (dev (command @ '' xml'')) key
       (if starred then no_data_starred command hostname else no_data_plain hostname)"
proof -
  from keyed_operations_shape[OF assms] obtain key where
    "operation = (if starred then keyed_starred command key else keyed_plain command key)"
    by blast
  then have "operation fromstring dev hostname =
     keyed_reply fromstring (dev (command @ '' xml'')) key
       (if starred then no_data_starred command hostname else no_data_plain hostname)"
    by (simp add: keyed_starred_def keyed_plain_def send_command_def)
  then show ?thesis by blast
qed

text \<open>
  Claim C2, as amended.  Each of the operations that key the records of one command
  returns, on an empty reply, its sentence that no data is available, and no exception;
  on a non-empty reply whose sanitised text the parser rejects it raises the parser's
  exception to its caller, and so do \<open>get_ntp_servers\<close> and \<open>get_facts\<close> (which parses the
  replies as they are): no operation catches it.  On a reply that parses, with named
  children in its instances, a keyed operation returns a dictionary.
\<close>

theorem replies_without_data:
  "((command, starred, operation) \<in> set keyed_operations \<longrightarrow>
      (dev (command @ '' xml'') = [] \<longrightarrow>
         operation fromstring dev hostname =
           Inr (NoData (if starred then no_data_starred command hostname
                        else no_data_plain hostname))) \<and>
      (dev (command @ '' xml'') \<noteq> [] \<and>
       fromstring (sanitize (dev (command @ '' xml''))) = Inl err \<longrightarrow>
         operation fromstring dev hostname = Inl err) \<and>
      (dev (command @ '' xml'') \<noteq> [] \<and>
       fromstring (sanitize (dev (command @ '' xml''))) = Inr root \<and>
       list_all (\<lambda>i. list_all has_name (children i)) (findall_child ''instance'' root) \<longrightarrow>
         (\<exists>records. operation fromstring dev hostname = Inr (Data records)))) \<and>
   (dev ''show sntp server-tablev6  xml'' \<noteq> [] \<and>
    fromstring (sanitize (dev ''show sntp server-tablev6  xml'')) = Inl err \<longrightarrow>
      get_ntp_servers fromstring dev = Inl err) \<and>
   (make_device_model (dev ''admin display-config'') = Inr model \<and>
    fromstring (dev ''show equipment isam detail xml'') = Inl err \<longrightarrow>
      get_facts fromstring dev = Inl err)"
proof (intro conjI impI)
  assume op: "(command, starred, operation) \<in> set keyed_operations"
  from keyed_operation_reply[OF op, of fromstring dev hostname] obtain key where
    key: "operation fromstring dev hostname =
      keyed_reply fromstring (dev (command @ '' xml'')) key
        (if starred then no_data_starred command hostname else no_data_plain hostname)"
    by blast
  {
    assume "dev (command @ '' xml'') = []"
    with key show "operation fromstring dev hostname =
        Inr (NoData (if starred then no_data_starred command hostname
                     else no_data_plain hostname))"
      by (simp add: keyed_reply_empty)
  next
    assume "dev (command @ '' xml'') \<noteq> [] \<and>
      fromstring (sanitize (dev (command @ '' xml''))) = Inl err"
    with key show "operation fromstring dev hostname = Inl err"
      by (simp add: keyed_reply_parse_error)
  next
    assume "dev (command @ '' xml'') \<noteq> [] \<and>
      fromstring (sanitize (dev (command @ '' xml''))) = Inr root \<and>
      list_all (\<lambda>i. list_all has_name (children i)) (findall_child ''instance'' root)"
    with key keyed_reply_data[of "dev (command @ '' xml'')" fromstring root key]
    show "\<exists>records. operation fromstring dev hostname = Inr (Data records)"
      by auto
  }
next
  assume "dev ''show sntp server-tablev6  xml'' \<noteq> [] \<and>
    fromstring (sanitize (dev ''show sntp server-tablev6  xml'')) = Inl err"
  then show "get_ntp_servers fromstring dev = Inl err"
    by (simp add: get_ntp_servers_def send_command_def convert_xml_to_list_def)
next
  assume "make_device_model (dev ''admin display-config'') = Inr model \<and>
    fromstring (dev ''show equipment isam detail xml'') = Inl err"
  then show "get_facts fromstring dev = Inl err"
    by (simp add: get_facts_def send_command_def)
qed

theorem replies_without_data_witness:
  "get_equipment_slot sample_fromstring silent_device ''olt1'' =
     Inr (NoData ''No available ** show equipment slot ** data from the olt1'') \<and>
   (\<exists>records. get_equipment_slot sample_fromstring slot_device ''olt1'' = Inr (Data records))"
proof -
  have op: "(''show equipment slot'', True, get_equipment_slot) \<in> set keyed_operations"
    by (simp add: keyed_operations_def)
  have silent: "silent_device (''show equipment slot'' @ '' xml'') = []"
    by (simp add: silent_device_def)
  have reply: "slot_device (''show equipment slot'' @ '' xml'') = slot_document"
    by (simp add: slot_device_def)
  have ne: "slot_document \<noteq> []" by (simp add: slot_document_def)
  have parsed: "sample_fromstring (sanitize slot_document) = Inr slot_tree"
    by (simp add: sanitize_slot_document sample_fromstring_def)
  have named: "list_all (\<lambda>i. list_all has_name (children i)) (findall_child ''instance'' slot_tree)"
    by (simp add: findall_child_def slot_tree_def has_name_def)
  from replies_without_data[of "''show equipment slot''" True get_equipment_slot silent_device
      sample_fromstring "''olt1''" ParseError slot_tree None] op silent
  have "get_equipment_slot sample_fromstring silent_device ''olt1'' =
     Inr (NoData ''No available ** show equipment slot ** data from the olt1'')"
    by (simp add: no_data_starred_def)
  moreover
  from replies_without_data[of "''show equipment slot''" True get_equipment_slot slot_device
      sample_fromstring "''olt1''" ParseError slot_tree None] op reply ne parsed named
  have "\<exists>records. get_equipment_slot sample_fromstring slot_device ''olt1'' = Inr (Data records)"
    by simp
  ultimately show ?thesis by blast
qed

theorem replies_without_data_counterexample:
  "get_ntp_servers sample_fromstring silent_device = Inl TypeError \<and>
   get_facts sample_fromstring silent_device = Inl ParseError"
  by code_simp

section \<open>The VLAN table\<close>

lemma keys_dict_set: "fst ` set (dict_set d k v) = insert k (fst ` set d)"
proof -
  have "set (map fst (dict_set d k v)) = insert k (set (map fst d))"
    by (auto simp: dict_set_def update_keys)
  then show ?thesis by simp
qed

lemma dict_get_key: "dict_get d k = Inr v \<Longrightarrow> k \<in> fst ` set d"
  by (auto simp: dict_get_Inr_iff dest: map_of_SomeD intro: rev_image_eqI)

lemma vlan_name_loop_keys:
  "vlan_name_loop es vl = Inr vl' \<Longrightarrow>
     fst ` set vl' \<subseteq> fst ` set vl \<union> {k. \<exists>e\<in>set es. vlan_id_of ''id'' e = Inr k}"
proof (induction es arbitrary: vl)
  case Nil
  then show ?case by simp
next
  case (Cons e es)
  from Cons.prems obtain d idv k where
    d: "convert_xml_elem_to_dict e = Inr d" and
    idv: "dict_get d ''id'' = Inr idv" and
    k: "py_int_opt idv = Inr k" and
    cont: "(if dict_has vl k then vlan_name_loop es vl
            else and_then (dict_get d ''name'') (\<lambda>nm.
              vlan_name_loop es (dict_set vl k \<lparr>vlan_name = nm, vlan_interfaces = []\<rparr>))) = Inr vl'"
    by (auto simp del: dict_has_iff)
  from d idv k have here: "vlan_id_of ''id'' e = Inr k"
    by (simp add: vlan_id_of_def)
  show ?case
  proof (cases "dict_has vl k")
    case True
    with cont have "vlan_name_loop es vl = Inr vl'" by (simp del: dict_has_iff)
    from Cons.IH[OF this] show ?thesis by auto
  next
    case False
    with cont obtain nm where
      "vlan_name_loop es (dict_set vl k \<lparr>vlan_name = nm, vlan_interfaces = []\<rparr>) = Inr vl'"
      by (auto simp del: dict_has_iff)
    from Cons.IH[OF this] here show ?thesis by (auto simp: keys_dict_set)
  qed
qed

lemma vlan_tag_loop_listed:
  "vlan_tag_loop es vl = Inr vl' \<Longrightarrow>
     \<forall>e\<in>set es. listed e = Inr True \<longrightarrow>
       (\<exists>k. vlan_id_of ''vlan-id'' e = Inr k \<and> k \<in> fst ` set vl)"
proof (induction es arbitrary: vl)
  case Nil
  then show ?case by simp
next
  case (Cons e es)
  from Cons.prems obtain d idv k port_raw port tm l where
    d: "convert_xml_elem_to_dict e = Inr d" and
    idv: "dict_get d ''vlan-id'' = Inr idv" and
    k: "py_int_opt idv = Inr k" and
    tm: "dict_get d ''transmit-mode'' = Inr tm" and
    l: "tagged_or_untagged tm = Inr l" and
    cont: "(if l then and_then (dict_get vl k) (\<lambda>entry.
              vlan_tag_loop es (dict_set vl k
                (entry\<lparr>vlan_interfaces := vlan_interfaces entry @ [port]\<rparr>)))
            else vlan_tag_loop es vl) = Inr vl'"
    by auto
  from d idv k have idk: "vlan_id_of ''vlan-id'' e = Inr k" by (simp add: vlan_id_of_def)
  from d tm l have lst: "listed e = Inr l" by (simp add: listed_def)
  show ?case
  proof (cases l)
    case True
    with cont obtain entry where
      entry: "dict_get vl k = Inr entry" and
      rest: "vlan_tag_loop es (dict_set vl k
                (entry\<lparr>vlan_interfaces := vlan_interfaces entry @ [port]\<rparr>)) = Inr vl'"
      by auto
    from dict_get_key[OF entry] have kin: "k \<in> fst ` set vl" .
    then have "fst ` set (dict_set vl k
        (entry\<lparr>vlan_interfaces := vlan_interfaces entry @ [port]\<rparr>)) = fst ` set vl"
      by (auto simp: keys_dict_set)
    with Cons.IH[OF rest] idk kin show ?thesis by auto
  next
    case False
    with cont have "vlan_tag_loop es vl = Inr vl'" by simp
    from Cons.IH[OF this] lst False show ?thesis by auto
  qed
qed

text \<open>
  Claim C10, as amended.  When \<open>get_vlans\<close> returns normally, every instance of the
  tagging output whose transmit mode contains \<open>single-tagged\<close> or \<open>untagged\<close> has a VLAN id
  that is the id of an instance of the VLAN-name output; an instance with another
  transmit mode is not looked up.  For the tagging instance of VLAN 100 with the mode
  \<open>untagged\<close> and a VLAN-name output without instances, the step that appends the
  interface raises \<open>KeyError\<close>.
\<close>

theorem get_vlans_needs_listed_ids:
  "(get_vlans_trees output_xml_tree tag_xml_tree = Inr vlans \<longrightarrow>
      (\<forall>elem\<in>set (findall_desc ''instance'' tag_xml_tree).
         listed elem = Inr True \<longrightarrow>
           (\<exists>k. vlan_id_of ''vlan-id'' elem = Inr k \<and>
              (\<exists>named\<in>set (findall_desc ''instance'' output_xml_tree).
                 vlan_id_of ''id'' named = Inr k)))) \<and>
   get_vlans_trees bare_tree (tagging_tree ''untagged'') = Inl KeyError"
proof (intro conjI impI)
  assume "get_vlans_trees output_xml_tree tag_xml_tree = Inr vlans"
  then obtain named_vlans where
    names: "vlan_name_loop (findall_desc ''instance'' output_xml_tree) [] = Inr named_vlans" and
    tags: "vlan_tag_loop (findall_desc ''instance'' tag_xml_tree) named_vlans = Inr vlans"
    by (auto simp: get_vlans_trees_def)
  from vlan_name_loop_keys[OF names]
  have keys: "fst ` set named_vlans \<subseteq>
      {k. \<exists>e\<in>set (findall_desc ''instance'' output_xml_tree). vlan_id_of ''id'' e = Inr k}"
    by simp
  show "\<forall>elem\<in>set (findall_desc ''instance'' tag_xml_tree).
         listed elem = Inr True \<longrightarrow>
           (\<exists>k. vlan_id_of ''vlan-id'' elem = Inr k \<and>
              (\<exists>named\<in>set (findall_desc ''instance'' output_xml_tree).
                 vlan_id_of ''id'' named = Inr k))"
  proof (intro ballI impI)
    fix elem
    assume "elem \<in> set (findall_desc ''instance'' tag_xml_tree)" and "listed elem = Inr True"
    with vlan_tag_loop_listed[OF tags] obtain k where
      "vlan_id_of ''vlan-id'' elem = Inr k" "k \<in> fst ` set named_vlans" by blast
    with keys show "\<exists>k. vlan_id_of ''vlan-id'' elem = Inr k \<and>
        (\<exists>named\<in>set (findall_desc ''instance'' output_xml_tree).
           vlan_id_of ''id'' named = Inr k)"
      by blast
  qed
next
  show "get_vlans_trees bare_tree (tagging_tree ''untagged'') = Inl KeyError"
    by code_simp
qed

theorem get_vlans_needs_listed_ids_witness:
  "\<exists>k. vlan_id_of ''vlan-id'' (hd (children (tagging_tree ''untagged''))) = Inr k \<and>
     (\<exists>named\<in>set (findall_desc ''instance'' names_tree). vlan_id_of ''id'' named = Inr k)"
proof -
  have ret: "get_vlans_trees names_tree (tagging_tree ''untagged'') =
      Inr [(100, \<lparr>vlan_name = Some ''DATA'', vlan_interfaces = [''1/1/1/1/1/1/1'']\<rparr>)]"
    by code_simp
  have mem: "hd (children (tagging_tree ''untagged'')) \<in>
      set (findall_desc ''instance'' (tagging_tree ''untagged''))"
    by (simp add: findall_desc_def tagging_tree_def)
  have lst: "listed (hd (children (tagging_tree ''untagged''))) = Inr True"
    by code_simp
  from get_vlans_needs_listed_ids[of names_tree "tagging_tree ''untagged''"] ret mem lst
  show ?thesis by blast
qed

theorem get_vlans_unlisted_counterexample:
  "get_vlans_trees bare_tree (tagging_tree ''tagged'') = Inr [] \<and>
   vlan_id_of ''vlan-id'' (hd (children (tagging_tree ''tagged''))) = Inr 100 \<and>
   findall_desc ''instance'' bare_tree = []"
  by code_simp

end
